theory Spec2Isabelle
  imports Main "HOL-Library.Word"
begin

unbundle bit_operations_syntax

section \<open>NodeHandle::param (core/roscpp/include/ros/node_handle.h)\<close>

text \<open>
  \<^verbatim>\<open>hasParam\<close> and \<open>getParam\<close> are only declared in the header: both are remote calls to
  the parameter server. They are taken as the two fields of a \<open>param_server\<close>.
  \<open>getParam srv key v\<close> receives the current content \<open>v\<close> of the caller's storage (the
  \<^verbatim>\<open>T&\<close> out-parameter) and returns the success flag together with the content of the
  storage after the call.
\<close>

record 'v param_server =
  hasParam :: "string \<Rightarrow> bool"
  getParam :: "string \<Rightarrow> 'v \<Rightarrow> bool \<times> 'v"

text \<open>
  \<^verbatim>\<open>
  void param(const std::string& param_name, T& param_val, const T& default_val)
  {
    if (hasParam(param_name))
    {
      if (getParam(param_name, param_val))
      {
        return;
      }
    }
    param_val = default_val;
  }
  \<close>
  The result is the content of \<open>param_val\<close> when the method returns.
\<close>

definition param :: "'v param_server \<Rightarrow> string \<Rightarrow> 'v \<Rightarrow> 'v \<Rightarrow> 'v" where
  "param srv param_name param_val default_val =
     (if hasParam srv param_name then
        (case getParam srv param_name param_val of
           (True, v') \<Rightarrow> v'
         | (False, v') \<Rightarrow> default_val)
      else default_val)"

section \<open>OS::detect (tools/rosdep/os.cpp)\<close>

text \<open>
  What \<open>detect\<close> reads from outside the program: the environment (\<^verbatim>\<open>getenv\<close>), the
  existence of files (\<^verbatim>\<open>rospack::file_exists\<close>), the text of \<^verbatim>\<open>/etc/issue\<close>
  (\<open>None\<close> when \<^verbatim>\<open>fopen\<close> returns a null pointer), whether \<^verbatim>\<open>fclose\<close> fails, and the
  output of the \<^verbatim>\<open>sw_vers\<close> pipe (\<open>None\<close> when \<^verbatim>\<open>popen\<close> fails).
\<close>

record os_world =
  getenv :: "string \<rightharpoonup> string"
  file_exists :: "string \<Rightarrow> bool"
  issue_text :: "string option"
  fclose_fails :: bool
  sw_vers_output :: "string option"

text \<open>
  A thrown \<^verbatim>\<open>runtime_error\<close> carries its message. Two more ways of not returning are
  kept apart from it: \<^verbatim>\<open>fscanf\<close> on a null stream, and a token of fifty characters
  written with its terminator into a buffer of fifty.
\<close>

datatype os_error = Runtime_error string | Null_stream | Buffer_overrun

text \<open>
  The two reference arguments \<open>name\<close> and \<open>ver\<close>, the member \<open>version\<close> of the object
  (the Ubuntu and the macports branch assign the member, not the argument), and the paths
  given to \<open>file_exists\<close>, \<open>fopen\<close> and \<open>popen\<close>, in order.
\<close>

record detect_state =
  name_arg :: string
  ver_arg :: string
  version_member :: string
  consulted :: "string list"

definition is_space :: "char \<Rightarrow> bool" where
  "is_space c = (c \<in> set [CHR '' '', CHR 0x09, CHR 0x0A, CHR 0x0B, CHR 0x0C, CHR 0x0D])"

text \<open>One \<^verbatim>\<open>%50s\<close> conversion: skip white space, then take at most fifty other characters.\<close>

definition scan_s50 :: "string \<Rightarrow> (string \<times> string) option" where
  "scan_s50 inp =
     (let rest = dropWhile is_space inp;
          tok = take 50 (takeWhile (\<lambda>c. \<not> is_space c) rest)
      in if tok = [] then None else Some (tok, drop (length tok) rest))"

text \<open>\<^verbatim>\<open>fgets(buf, 100, pipe)\<close>: the first line with its newline, at most 99 characters.\<close>

definition fgets100 :: "string \<Rightarrow> string option" where
  "fgets100 inp =
     (if inp = [] then None
      else let line = takeWhile (\<lambda>c. c \<noteq> CHR 0x0A) inp;
               line' = (if length line < length inp then line @ [CHR 0x0A] else line)
           in Some (take 99 line'))"

text \<open>
  The result is what the call returned (\<open>Inr\<close>) or how it failed to return (\<open>Inl\<close>), and
  the state it left.
\<close>

definition detect :: "os_world \<Rightarrow> detect_state \<Rightarrow> (os_error + bool) \<times> detect_state" where
  "detect w s =
     (case getenv w ''ROSDEP_OS_NAME'' of
        Some override_os_name \<Rightarrow>
          (let s1 = s\<lparr>name_arg := override_os_name\<rparr>
           in case getenv w ''ROSDEP_OS_VERSION'' of
                Some override_os_version \<Rightarrow> (Inr True, s1\<lparr>ver_arg := override_os_version\<rparr>)
              | None \<Rightarrow> (Inr True, s1))
      | None \<Rightarrow>
          (let s1 = s\<lparr>consulted := consulted s @ [''/etc/arch-release'']\<rparr> in
           if file_exists w ''/etc/arch-release'' then (Inr True, s1\<lparr>name_arg := ''arch''\<rparr>)
           else
             let s2 = s1\<lparr>consulted := consulted s1 @ [''/etc/issue'']\<rparr> in
             if file_exists w ''/etc/issue'' then
               (let s3 = s2\<lparr>consulted := consulted s2 @ [''/etc/issue'']\<rparr> in
                case issue_text w of
                  None \<Rightarrow> (Inl Null_stream, s3)
                | Some txt \<Rightarrow>
                    \<comment> \<open>two \<^verbatim>\<open>%50s\<close> conversions of \<^verbatim>\<open>fscanf\<close>, then \<^verbatim>\<open>fclose\<close>\<close>
                    (case scan_s50 txt of
                       None \<Rightarrow> (Inl (Runtime_error (''couldn't parse /etc/issue'' @ [CHR 0x0A])), s3)
                     | Some (os_name, rest) \<Rightarrow>
                         if length os_name = 50 then (Inl Buffer_overrun, s3)
                         else
                           (case scan_s50 rest of
                              None \<Rightarrow>
                                (Inl (Runtime_error (''couldn't parse /etc/issue'' @ [CHR 0x0A])), s3)
                            | Some (os_ver, _) \<Rightarrow>
                                if length os_ver = 50 then (Inl Buffer_overrun, s3)
                                else if fclose_fails w
                                then (Inl (Runtime_error
                                        (''couldn't parse /etc/issue'' @ [CHR 0x0A])), s3)
                                else if os_name = ''Ubuntu''
                                then (Inr True, s3\<lparr>name_arg := ''ubuntu'',
                                                     version_member := take 4 os_ver\<rparr>)
                                else (Inl (Runtime_error
                                        (''/etc/issue wasn't ubuntu. need to fix rosdep.''
                                           @ [CHR 0x0A])), s3))))
             else
               let s3 = s2\<lparr>consulted := consulted s2 @ [''/usr/bin/sw_vers'']\<rparr> in
               if file_exists w ''/usr/bin/sw_vers'' then
                 (let s4 = s3\<lparr>name_arg := ''macports'',
                              consulted := consulted s3 @ [''sw_vers'']\<rparr> in
                  case sw_vers_output w of
                    None \<Rightarrow> (Inl (Runtime_error ''couldn't get output of sw_vers''), s4)
                  | Some out \<Rightarrow>
                      (case fgets100 out of
                         Some sw_pipe_response \<Rightarrow> (Inr True, s4\<lparr>version_member := sw_pipe_response\<rparr>)
                       | None \<Rightarrow> (Inl (Runtime_error ''no response from sw_vers''), s4)))
               else (Inr False, s3\<lparr>name_arg := ''unknown''\<rparr>)))"

section \<open>TEST(SrvCall, callSrv) (test/test_roscpp/src/service_call_expect_b.cpp)\<close>

text \<open>
  What the test reads from outside: the answer of the \<open>k\<close>-th call
  \<^verbatim>\<open>g_n->getParam(key, param)\<close> (the calls are counted from 0), and what
  \<^verbatim>\<open>ros::service::call(name, req, res)\<close> returns and leaves in \<open>res.str\<close>, given the service
  name, \<open>req.str\<close> and the content of \<open>res.str\<close> before the call.
\<close>

record test_world =
  node_getParam :: "nat \<Rightarrow> string \<Rightarrow> bool"
  service_call :: "string \<Rightarrow> string \<Rightarrow> string \<Rightarrow> bool \<times> string"

datatype test_outcome = Passed | Failed_ASSERT_TRUE | Failed_ASSERT_STREQ

text \<open>
  What a run of the test body did: the \<^verbatim>\<open>usleep(100000)\<close> calls it made, the service
  calls it made (name and request string), and how it ended.
\<close>

record test_run =
  sleeps :: nat
  calls :: "(string \<times> string) list"
  outcome :: test_outcome

text \<open>\<^verbatim>\<open>std::string::c_str\<close> as \<^verbatim>\<open>ASSERT_STREQ\<close> reads it: up to the first NUL.\<close>

definition c_str :: "string \<Rightarrow> string" where
  "c_str s = takeWhile (\<lambda>c. c \<noteq> CHR 0x00) s"

text \<open>
  \<^verbatim>\<open>while(!g_n->getParam("advertisers_ready", param)) usleep(100000);\<close>
  The loop may run forever; \<open>wait_ready w k\<close> starts at the \<open>k\<close>-th call and returns the
  index of the call that succeeded, which is the number of sleeps when started at 0.
\<close>

partial_function (option) wait_ready :: "test_world \<Rightarrow> nat \<Rightarrow> nat option" where
  "wait_ready w k =
     (if node_getParam w k ''advertisers_ready'' then Some k else wait_ready w (Suc k))"

definition callSrv :: "test_world \<Rightarrow> test_run option" where
  "callSrv w =
     (let req_str = ''nothing'' in
      case wait_ready w 0 of
        None \<Rightarrow> None
      | Some k \<Rightarrow>
          (case service_call w ''service_adv'' req_str [] of
             (call_result, res_str) \<Rightarrow>
               Some \<lparr>sleeps = k, calls = [(''service_adv'', req_str)],
                     outcome = (if \<not> call_result then Failed_ASSERT_TRUE
                                else if c_str res_str \<noteq> ''B'' then Failed_ASSERT_STREQ
                                else Passed)\<rparr>))"

section \<open>rosplay (tools/rosrecord/src/rosplay/rosplay.cpp)\<close>

subsection \<open>Terminal settings\<close>

text \<open>
  \<^verbatim>\<open>struct termios\<close> as Linux declares it: four words of flags, the line discipline, the
  control characters and the two speeds. The control characters are a function of the
  index, so that an assignment \<^verbatim>\<open>c_cc[i] = v\<close> is a function update.
\<close>

record termios =
  c_iflag :: "32 word"
  c_oflag :: "32 word"
  c_cflag :: "32 word"
  c_lflag :: "32 word"
  c_line :: "8 word"
  c_cc :: "nat \<Rightarrow> 8 word"
  c_ispeed :: "32 word"
  c_ospeed :: "32 word"

text \<open>The macros of \<^verbatim>\<open><termios.h>\<close> the program uses, and \<open>ECHO\<close>, with their Linux values.\<close>

definition ICANON :: "32 word" where "ICANON = 0x2"
definition ECHO :: "32 word" where "ECHO = 0x8"
definition VTIME :: nat where "VTIME = 5"
definition VMIN :: nat where "VMIN = 6"

subsection \<open>Messages, envelopes and what the program does to the outside\<close>

text \<open>
  A message answers \<^verbatim>\<open>__getDataType()\<close> and \<^verbatim>\<open>__getMD5Sum()\<close> and has a body. An envelope
  is one call of a handler by the player: topic, message, play time and record time. Times
  and durations are integers, in nanoseconds.
\<close>

record msg =
  getDataType :: string
  getMD5Sum :: string
  body :: string

record envelope =
  topic :: string
  message :: msg
  play_time :: int
  record_time :: int

text \<open>One entry of the report of check mode, \<^verbatim>\<open>struct BagContent\<close>, whose field \<^verbatim>\<open>datatype\<close> is
  \<open>data_type\<close> here; \<open>count\<close> is a C \<^verbatim>\<open>int\<close>.\<close>

record BagContent =
  data_type :: string
  md5sum :: string
  count :: "32 word"

text \<open>
  The report check mode prints: the bag name and the three 64-bit values handed to
  \<^verbatim>\<open>printf("%lld")\<close>, which prints each as a signed number, then the content of
  \<open>g_content\<close>.
\<close>

record report =
  bag :: string
  report_start_time :: "64 word"
  report_end_time :: "64 word"
  report_length :: "64 word"
  topics :: "string \<rightharpoonup> BagContent"

text \<open>
  The calls the program makes to the outside, in the order it makes them. Progress output
  on \<^verbatim>\<open>stdout\<close> (the prompts, the time line, \<open>Done.\<close>) is not recorded; the report of check
  mode is.
\<close>

datatype event =
    Stderr string
  | Getopt_diagnostic char
  | Report report
  | Node_created
  | Node_shutdown
  | Advertise string int
  | Publish string msg
  | Player_open "string list" int "string option"
  | Add_handler
  | Shift_time int
  | Bag_time_initialize int "string option"
  | Step_time int
  | Start_time int
  | Set_horizon int
  | Freeze_time
  | Usleep "32 word"

text \<open>
  The state outside the program: the terminal settings of \<^verbatim>\<open>stdin\<close>; what the coming
  reads of \<^verbatim>\<open>stdin\<close> find, a character or \<open>None\<close> when no character is waiting (the read
  does not block once \<open>VMIN\<close> is 0), and nothing for ever once the list is used up; the
  end-of-file indicator of \<^verbatim>\<open>stdin\<close>, which a read that finds nothing sets and the
  program never clears; whether a set indicator makes \<^verbatim>\<open>getchar\<close> return \<open>EOF\<close> without
  reading (ISO C, and the GNU C library from 2.28 on) or is ignored by the next call (the
  GNU C library before that); the wall clock; whether \<^verbatim>\<open>Node::ok()\<close> holds; the topics the
  node has advertised; and the calls made so far. The node stops being ok when the
  program calls \<^verbatim>\<open>shutdown()\<close>; a signal from outside is not part of the model.
\<close>

record world =
  tty :: termios
  keys :: "char option list"
  stdin_eof :: bool
  sticky_eof :: bool
  clock :: int
  node_ok :: bool
  advertised :: "string list"
  log :: "event list"

text \<open>
  What the sources take from code that is not theirs, as parameters: whether
  \<^verbatim>\<open>Player::open\<close> succeeds on a list of bag names; the envelopes \<^verbatim>\<open>nextMsg\<close> then hands to a
  handler, in order, before it returns false; \<^verbatim>\<open>getFirstDuration().toNSec()\<close>; \<^verbatim>\<open>atoi\<close>;
  and the two uses of \<^verbatim>\<open>atof\<close>, each with the conversion the program applies to the
  result: \<^verbatim>\<open>(unsigned int)(1000000.0*atof(s))\<close> and \<^verbatim>\<open>Duration().fromSec(-float_time)\<close>.
\<close>

record bags =
  open_ok :: "string list \<Rightarrow> bool"
  feed :: "string list \<Rightarrow> envelope list"
  first_duration :: "string list \<Rightarrow> int"
  atoi :: "string \<Rightarrow> int"
  atof_usec :: "string \<Rightarrow> 32 word"
  minus_atof_nsec :: "string \<Rightarrow> int"

definition emit :: "event \<Rightarrow> world \<Rightarrow> world" where
  "emit ev w = w\<lparr>log := log w @ [ev]\<rparr>"

text \<open>\<^verbatim>\<open>usleep\<close>: time passes, and only here.\<close>

definition usleep :: "32 word \<Rightarrow> world \<Rightarrow> world" where
  "usleep us w = emit (Usleep us) (w\<lparr>clock := clock w + 1000 * uint us\<rparr>)"

definition getSysTime :: "world \<Rightarrow> int" where
  "getSysTime w = clock w"

text \<open>\<^verbatim>\<open>getchar()\<close>, with \<open>None\<close> for \<open>EOF\<close>.\<close>

definition getchar :: "world \<Rightarrow> char option \<times> world" where
  "getchar w =
     (if sticky_eof w \<and> stdin_eof w then (None, w)
      else case keys w of
        [] \<Rightarrow> (None, w\<lparr>stdin_eof := True\<rparr>)
      | None # ks \<Rightarrow> (None, w\<lparr>keys := ks, stdin_eof := True\<rparr>)
      | Some c # ks \<Rightarrow> (Some c, w\<lparr>keys := ks\<rparr>))"

definition shutdown :: "world \<Rightarrow> world" where
  "shutdown w = emit Node_shutdown (w\<lparr>node_ok := False\<rparr>)"

text \<open>
  Modelled from the spec: \<^verbatim>\<open>Node::advertise\<close> is not in the sources. The spec has a topic
  advertised when it is not yet advertised on this run, so the call returns true exactly
  for a topic the node has not advertised.
\<close>

definition advertise :: "string \<Rightarrow> int \<Rightarrow> world \<Rightarrow> bool \<times> world" where
  "advertise name queue_size w =
     (name \<notin> set (advertised w),
      emit (Advertise name queue_size)
        (if name \<in> set (advertised w) then w else w\<lparr>advertised := advertised w @ [name]\<rparr>))"

definition publish :: "string \<Rightarrow> msg \<Rightarrow> world \<Rightarrow> world" where
  "publish name m w = emit (Publish name m) w"

definition nl :: string where "nl = [CHR 0x0A]"
definition tab :: string where "tab = [CHR 0x09]"

definition print_usage :: "world \<Rightarrow> world" where
  "print_usage w = emit (Stderr (''USAGE: rosplay [options] BAG1 [BAG2]'' @ nl)) w"

definition help_lines :: "string list" where
  "help_lines =
     ['' -n'' @ tab @ ''disable display of current log time'' @ nl,
      '' -c'' @ tab @ ''check the contents of the bag without playing back'' @ nl,
      '' -a'' @ tab @ ''playback all messages without waiting'' @ nl,
      '' -b hz'' @ tab @ ''publish the bag time at frequence <hz>'' @ nl,
      '' -p'' @ tab @ ''start in paused mode'' @ nl,
      '' -r'' @ tab @ ''increase the publish rate ba a factor <rate_change>'' @ nl,
      '' -s sec'' @ tab @ ''sleep <sec> sleep duration after every advertise call (to allow subscribers to connect)'' @ nl,
      '' -t sec'' @ tab @ ''start <sec> seconds into the files'' @ nl,
      '' -q sz'' @ tab @ ''Use an outgoing queue of size <sz> (defaults to 0)'' @ nl,
      '' -h'' @ tab @ ''display this help message'' @ nl]"

definition print_help :: "world \<Rightarrow> world" where
  "print_help w = fold (\<lambda>l. emit (Stderr l)) help_lines (print_usage w)"

subsection \<open>getopt\<close>

text \<open>
  \<^verbatim>\<open>getopt\<close> of the GNU C library, in its default mode, which is what the program is
  linked with on Linux. A result is an option character with its argument, or \<open>'?'\<close> for
  a character that is not in the option string or that lacks its argument.
  \<open>opt_lookup\<close> finds a character in the option string and says whether a colon follows.
\<close>

datatype getopt_result = Opt char "string option" | Unknown char

fun opt_lookup :: "string \<Rightarrow> char \<Rightarrow> bool option" where
  "opt_lookup [] c = None"
| "opt_lookup (x # xs) c =
     (if x = c \<and> c \<noteq> CHR '':'' then Some (case xs of [] \<Rightarrow> False | y # _ \<Rightarrow> y = CHR '':'')
      else opt_lookup xs c)"

text \<open>
  The characters of one argument after its dash. An option that takes an argument takes
  the rest of the word, or the next word when nothing is left (\<open>next\<close>); the flag returned
  says whether the next word was taken.
\<close>

fun cluster :: "string \<Rightarrow> string \<Rightarrow> string option \<Rightarrow> getopt_result list \<times> bool" where
  "cluster optstring [] next = ([], False)"
| "cluster optstring (c # cs) next =
     (case opt_lookup optstring c of
        None \<Rightarrow> (case cluster optstring cs next of (rs, used) \<Rightarrow> (Unknown c # rs, used))
      | Some False \<Rightarrow> (case cluster optstring cs next of (rs, used) \<Rightarrow> (Opt c None # rs, used))
      | Some True \<Rightarrow>
          (if cs \<noteq> [] then ([Opt c (Some cs)], False)
           else case next of
                  None \<Rightarrow> ([Unknown c], False)
                | Some a \<Rightarrow> ([Opt c (Some a)], True)))"

text \<open>
  All the calls of \<^verbatim>\<open>getopt\<close> on the arguments after \<open>argv[0]\<close>: the results in order, and
  the words left at \<open>optind\<close> when it returns -1. A word that is not an option is skipped
  and ends up behind the options (GNU permutes); \<open>--\<close> ends the options.
\<close>

function getopt_scan :: "string \<Rightarrow> string list \<Rightarrow> getopt_result list \<times> string list" where
  "getopt_scan optstring [] = ([], [])"
| "getopt_scan optstring (a # as) =
     (if a = ''--'' then ([], as)
      else if 2 \<le> length a \<and> hd a = CHR ''-'' then
        (case cluster optstring (tl a) (case as of [] \<Rightarrow> None | b # _ \<Rightarrow> Some b) of
           (rs, used) \<Rightarrow>
             (case getopt_scan optstring (if used then tl as else as) of
                (rs', rest) \<Rightarrow> (rs @ rs', rest)))
      else (case getopt_scan optstring as of (rs, rest) \<Rightarrow> (rs, a # rest)))"
  by pat_completeness auto
termination
  by (relation "measure (\<lambda>(optstring, as). length as)") auto

subsection \<open>Check mode\<close>

text \<open>The two globals of check mode, \<open>g_content\<close> and \<open>g_end_time\<close> (an \<^verbatim>\<open>unsigned long long\<close>).\<close>

record globals =
  g_content :: "string \<rightharpoonup> BagContent"
  g_end_time :: "64 word"

definition globals0 :: globals where
  "globals0 = \<lparr>g_content = Map.empty, g_end_time = 0\<rparr>"

text \<open>
  \<^verbatim>\<open>
  void checkFile(string name, ros::Message* m, ros::Time time_play, ros::Time time_recorded, void* n)
  {
    map<string, BagContent>::iterator i = g_content.find(name);
    if (i == g_content.end())
      g_content.insert(pair<string, BagContent>(name, BagContent(m->__getDataType(), m->__getMD5Sum())));
    else
      i->second.count++;
    g_end_time = time_play.toNSec();
  }
  \<close>
  The constructor of \<open>BagContent\<close> sets \<open>count\<close> to 1.
\<close>

definition checkFile :: "envelope \<Rightarrow> globals \<Rightarrow> globals" where
  "checkFile e g =
     (case g_content g (topic e) of
        None \<Rightarrow>
          g\<lparr>g_content := (g_content g)(topic e \<mapsto>
                \<lparr>data_type = getDataType (message e), md5sum = getMD5Sum (message e), count = 1\<rparr>),
            g_end_time := word_of_int (play_time e)\<rparr>
      | Some i \<Rightarrow>
          g\<lparr>g_content := (g_content g)(topic e \<mapsto> i\<lparr>count := count i + 1\<rparr>),
            g_end_time := word_of_int (play_time e)\<rparr>)"

text \<open>
  The option loop of check mode. The result is the value \<open>main\<close> returns from inside the
  loop, if it does. The \<^verbatim>\<open>switch\<close> has no default: any other character goes round again.
\<close>

fun check_options :: "getopt_result list \<Rightarrow> world \<Rightarrow> int option \<times> world" where
  "check_options [] w = (None, w)"
| "check_options (Unknown c # rs) w = (Some 0, print_usage (emit (Getopt_diagnostic c) w))"
| "check_options (Opt c arg # rs) w =
     (if c = CHR ''c'' then check_options rs w
      else if c = CHR ''a''
        then (Some 1, emit (Stderr (''Option -a is not valid when checking bag'' @ nl)) w)
      else if c = CHR ''p''
        then (Some 1, emit (Stderr (''Option -p is not valid when checking bag'' @ nl)) w)
      else if c = CHR ''t''
        then (Some 1, emit (Stderr (''Option -t is not valid when checking bag'' @ nl)) w)
      else if c = CHR ''q''
        then (Some 1, emit (Stderr (''Option -q is not valid when checking bag'' @ nl)) w)
      else if c = CHR ''h'' then (Some 0, print_help w)
      else check_options rs w)"

text \<open>The results of \<open>getopt\<close> that the loop of check mode passes over: the option \<open>-c\<close>.\<close>

fun is_dash_c :: "getopt_result \<Rightarrow> bool" where
  "is_dash_c (Opt c arg) = (c = CHR ''c'')"
| "is_dash_c (Unknown c) = False"

text \<open>
  How \<open>main\<close> ends: with an exit code, or, in check mode without any bag, at
  \<^verbatim>\<open>player.open(argv[optind], ...)\<close> with \<open>argv[optind]\<close> the null pointer that ends \<open>argv\<close>;
  the sources do not say what happens then.
\<close>

datatype exit = Exit int | Null_bag_name

text \<open>
  The scan of check mode: the handler is added when the bag opens, and \<open>nextMsg\<close> is
  called until it returns false.
\<close>

definition scan_bag :: "bags \<Rightarrow> string \<Rightarrow> globals" where
  "scan_bag env b = (if open_ok env [b] then fold checkFile (feed env [b]) globals0 else globals0)"

definition check_report :: "bags \<Rightarrow> string \<Rightarrow> report" where
  "check_report env b =
     (let g = scan_bag env b in
      \<lparr>bag = b,
       report_start_time = word_of_int (first_duration env [b]),
       report_end_time = g_end_time g + word_of_int (first_duration env [b]),
       report_length = g_end_time g,
       topics = g_content g\<rparr>)"

text \<open>The branch \<^verbatim>\<open>if (check_bag)\<close> of \<open>main\<close>.\<close>

definition main_check :: "string list \<Rightarrow> bags \<Rightarrow> world \<Rightarrow> exit \<times> world" where
  "main_check argv env w =
     (case getopt_scan ''cahpt:q:'' (tl argv) of
        (opts, rest) \<Rightarrow>
          (case check_options opts w of
             (Some code, w1) \<Rightarrow> (Exit code, w1)
           | (None, w1) \<Rightarrow>
               if 1 < length rest
               then (Exit 1, emit (Stderr (''Only 1 bag can be checked at a time'' @ nl)) w1)
               else
                 (case rest of
                    [] \<Rightarrow> (Null_bag_name, w1)
                  | b # _ \<Rightarrow>
                      (let w2 = emit (Player_open [b] 0 None) w1;
                           w3 = (if open_ok env [b] then emit Add_handler w2 else w2)
                       in (Exit 0, emit (Report (check_report env b)) w3)))))"

subsection \<open>The player object\<close>

text \<open>
  The members of \<open>RosPlay\<close>, written without the underscore that ends their names in
  the source. \<open>time_scale\<close> is a \<^verbatim>\<open>double\<close>: the model keeps the text given
  to \<^verbatim>\<open>atof\<close>, \<open>None\<close> for the initial 1.0. \<open>handler_added\<close> is the part of \<open>player_\<close> the
  program decides: whether \<open>doPublish\<close> was registered. The members the constructor does
  not initialise start at 0.
\<close>

record rosplay =
  bag_time_initialized :: bool
  at_once :: bool
  quiet :: bool
  paused :: bool
  shifted :: bool
  bag_time :: bool
  time_scale :: "string option"
  queue_size :: int
  bag_time_frequency :: int
  advertise_sleep :: "32 word"
  orig_flags :: termios
  start_time :: int
  requested_start_time :: int
  paused_time :: int
  handler_added :: bool

definition rosplay0 :: "termios \<Rightarrow> rosplay" where
  "rosplay0 orig =
     \<lparr>bag_time_initialized = False, at_once = False, quiet = False, paused = False,
      shifted = False, bag_time = False, time_scale = None, queue_size = 0,
      bag_time_frequency = 0, advertise_sleep = 200000, orig_flags = orig,
      start_time = 0, requested_start_time = 0, paused_time = 0, handler_added = False\<rparr>"

text \<open>
  \<^verbatim>\<open>
  flags = orig_flags_;
  flags.c_lflag &= ~ICANON;
  flags.c_cc[VMIN]  = 0;
  flags.c_cc[VTIME] = 0;
  \<close>
\<close>

definition raw_flags :: "termios \<Rightarrow> termios" where
  "raw_flags orig =
     orig\<lparr>c_lflag := c_lflag orig AND NOT ICANON,
          c_cc := (c_cc orig)(VMIN := 0, VTIME := 0)\<rparr>"

definition optarg :: "string option \<Rightarrow> string" where
  "optarg arg = (case arg of None \<Rightarrow> [] | Some a \<Rightarrow> a)"

text \<open>
  The cases of the \<^verbatim>\<open>switch\<close> of the constructor that go on with the loop. The state
  is the object, the text copied by \<^verbatim>\<open>strncpy\<close> for \<open>-t\<close> (\<open>has_time\<close> is whether there is
  one) and the world.
\<close>

definition ctor_case ::
  "bags \<Rightarrow> char \<Rightarrow> string option \<Rightarrow> rosplay \<Rightarrow> string option \<Rightarrow> world
     \<Rightarrow> rosplay \<times> string option \<times> world" where
  "ctor_case env c arg rp time w =
     (if c = CHR ''c'' then (rp, time, shutdown w)
      else if c = CHR ''n'' then (rp\<lparr>quiet := True\<rparr>, time, w)
      else if c = CHR ''a'' then (rp\<lparr>at_once := True\<rparr>, time, w)
      else if c = CHR ''p'' then (rp\<lparr>paused := True\<rparr>, time, w)
      else if c = CHR ''s'' then (rp\<lparr>advertise_sleep := atof_usec env (optarg arg)\<rparr>, time, w)
      else if c = CHR ''t'' then (rp, Some (take 1024 (optarg arg)), w)
      else if c = CHR ''q'' then (rp\<lparr>queue_size := atoi env (optarg arg)\<rparr>, time, w)
      else if c = CHR ''b''
        then (rp\<lparr>bag_time_frequency := atoi env (optarg arg), bag_time := True\<rparr>, time, w)
      else if c = CHR ''r'' then (rp\<lparr>time_scale := Some (optarg arg)\<rparr>, time, w)
      else (rp, time, w))"

text \<open>
  The option loop of the constructor; \<open>-h\<close> and \<open>'?'\<close> print, shut the node down and
  return. The flag says whether the constructor returned from inside the loop.
\<close>

fun ctor_options ::
  "bags \<Rightarrow> getopt_result list \<Rightarrow> rosplay \<Rightarrow> string option \<Rightarrow> world
     \<Rightarrow> bool \<times> rosplay \<times> string option \<times> world" where
  "ctor_options env [] rp time w = (False, rp, time, w)"
| "ctor_options env (Unknown c # rs) rp time w =
     (True, rp, time, shutdown (print_usage (emit (Getopt_diagnostic c) w)))"
| "ctor_options env (Opt c arg # rs) rp time w =
     (if c = CHR ''h'' then (True, rp, time, shutdown (print_help w))
      else case ctor_case env c arg rp time w of
             (rp1, time1, w1) \<Rightarrow> ctor_options env rs rp1 time1 w1)"

text \<open>
  The constructor \<open>RosPlay::RosPlay\<close>, after the option loop. \<open>minus_float_time\<close> is
  \<^verbatim>\<open>ros::Duration().fromSec(-float_time)\<close>, where \<open>float_time\<close> is 0 without \<open>-t\<close>.
\<close>

definition ctor_open :: "bags \<Rightarrow> string list \<Rightarrow> rosplay \<Rightarrow> string option \<Rightarrow> world \<Rightarrow> rosplay \<times> world" where
  "ctor_open env rest rp time w =
     (let minus_float_time = (case time of None \<Rightarrow> 0 | Some t \<Rightarrow> minus_atof_nsec env t) in
      if rest = [] then
        (rp, shutdown (print_help
               (emit (Stderr (''You must specify at least one bagfile to play from.'' @ nl)) w)))
      else if bag_time rp \<and> 1 < length rest then
        (rp, shutdown (print_usage
               (emit (Stderr (''You can only play one single bag when using bag time [-b].'' @ nl)) w)))
      else
        (let w1 = (if bag_time rp
                   then emit (Bag_time_initialize (bag_time_frequency rp) (time_scale rp)) w
                   else w);
             rp1 = rp\<lparr>start_time := getSysTime w1, requested_start_time := getSysTime w1\<rparr>;
             w2 = emit (Player_open rest (start_time rp1 + minus_float_time) (time_scale rp1)) w1;
             rp2 = (if open_ok env rest then rp1\<lparr>handler_added := True\<rparr> else rp1);
             w3 = (if open_ok env rest then emit Add_handler w2 else w2)
         in if \<not> at_once rp2 \<and> paused rp2
            then (rp2\<lparr>paused_time := getSysTime w3\<rparr>, w3)
            else (rp2, w3)))"

definition RosPlay_ctor :: "string list \<Rightarrow> bags \<Rightarrow> world \<Rightarrow> rosplay \<times> world" where
  "RosPlay_ctor argv env w =
     (let rp = rosplay0 (tty w);
          w1 = w\<lparr>tty := raw_flags (orig_flags rp)\<rparr>
      in case getopt_scan ''ncahpb:r:s:t:q:'' (tl argv) of
           (opts, rest) \<Rightarrow>
             (case ctor_options env opts rp None w1 of
                (True, rp1, time, w2) \<Rightarrow> (rp1, w2)
              | (False, rp1, time, w2) \<Rightarrow> ctor_open env rest rp1 time w2))"

text \<open>The destructor: \<^verbatim>\<open>tcsetattr(fd,TCSANOW,&orig_flags_)\<close>.\<close>

definition RosPlay_dtor :: "rosplay \<Rightarrow> world \<Rightarrow> world" where
  "RosPlay_dtor rp w = w\<lparr>tty := orig_flags rp\<rparr>"

subsection \<open>doPublish\<close>

text \<open>A call of \<open>bag_time_publisher_\<close>, made only when bag time is in use.\<close>

definition bag_time_call :: "rosplay \<Rightarrow> event \<Rightarrow> world \<Rightarrow> world" where
  "bag_time_call rp ev w = (if bag_time rp then emit ev w else w)"

text \<open>
  The first part of \<open>doPublish\<close> after the test of the play time: the bag time, then
  \<^verbatim>\<open>
  if (ros::Node::instance()->advertise(name, *m, queue_size_))
  {
    if (bag_time_) bag_time_publisher_.freezeTime();
    Time paused_time_ = getSysTime();
    usleep(advertise_sleep_);
    Duration shift = getSysTime() - paused_time_;
    player_.shiftTime(shift);
    if (bag_time_) bag_time_publisher_.startTime(record_time);
  }
  \<close>
  where \<open>paused_time_\<close> is a local variable that hides the member.
\<close>

definition announce :: "rosplay \<Rightarrow> envelope \<Rightarrow> world \<Rightarrow> rosplay \<times> world" where
  "announce rp e w =
     (let w1 = (if bag_time rp \<and> \<not> bag_time_initialized rp
                then (if paused rp then emit (Step_time (record_time e)) w
                      else emit (Start_time (record_time e)) w)
                else w);
          rp1 = (if bag_time rp then rp\<lparr>bag_time_initialized := True\<rparr> else rp);
          w2 = (if bag_time rp
                then (if at_once rp then emit (Start_time (record_time e)) w1
                      else emit (Set_horizon (play_time e)) w1)
                else w1)
      in case advertise (topic e) (queue_size rp1) w2 of
           (False, w3) \<Rightarrow> (rp1, w3)
         | (True, w3) \<Rightarrow>
             (let w4 = bag_time_call rp1 Freeze_time w3;
                  local_paused_time = getSysTime w4;
                  w5 = usleep (advertise_sleep rp1) w4;
                  shift = getSysTime w5 - local_paused_time;
                  w6 = emit (Shift_time shift) w5
              in (rp1, bag_time_call rp1 (Start_time (record_time e)) w6)))"

text \<open>
  \<^verbatim>\<open>char c = getchar()\<close> and \<^verbatim>\<open>case EOF\<close>: with a signed \<^verbatim>\<open>char\<close>, the byte 255 compares
  equal to \<open>EOF\<close> too.
\<close>

definition is_EOF :: "char option \<Rightarrow> bool" where
  "is_EOF c = (c = None \<or> c = Some (CHR 0xFF))"

text \<open>The space key: pause, or resume and shift the play time.\<close>

definition toggle_pause :: "rosplay \<Rightarrow> envelope \<Rightarrow> int \<Rightarrow> world \<Rightarrow> rosplay \<times> int \<times> world" where
  "toggle_pause rp e pt w =
     (let rp1 = rp\<lparr>paused := \<not> paused rp\<rparr> in
      if paused rp1 then
        (let w1 = bag_time_call rp1 Freeze_time w
         in (rp1\<lparr>paused_time := getSysTime w1\<rparr>, pt, w1))
      else
        (let w1 = bag_time_call rp1 (Start_time (record_time e)) w in
         if shifted rp1
         then (rp1\<lparr>shifted := False\<rparr>, getSysTime w1, emit (Shift_time (getSysTime w1 - pt)) w1)
         else (rp1, pt + (getSysTime w1 - paused_time rp1),
               emit (Shift_time (getSysTime w1 - paused_time rp1)) w1)))"

text \<open>
  The inner loop \<^verbatim>\<open>while (charsleftorpaused && ros::Node::instance()->ok())\<close>. It ends
  with the \<^verbatim>\<open>return\<close> of the step key (\<open>Stepped\<close>) or by leaving the loop (\<open>Left\<close>, with the
  play time, which the space key changes). The first argument bounds the number of
  rounds: at the bound the loop is cut off, still running, in the state it has reached
  (\<open>Key_cut\<close>).
\<close>

datatype key_exit = Stepped rosplay world | Left rosplay int world | Key_cut rosplay int world

fun key_loop :: "nat \<Rightarrow> rosplay \<Rightarrow> envelope \<Rightarrow> int \<Rightarrow> world \<Rightarrow> key_exit" where
  "key_loop 0 rp e pt w = Key_cut rp pt w"
| "key_loop (Suc n) rp e pt w =
     (if \<not> node_ok w then Left rp pt w
      else case getchar w of
        (c, w1) \<Rightarrow>
          if c = Some CHR '' '' then
            (case toggle_pause rp e pt w1 of (rp1, pt1, w2) \<Rightarrow> key_loop n rp1 e pt1 w2)
          else if c = Some CHR ''s'' then
            (if paused rp
             then Stepped (rp\<lparr>shifted := True\<rparr>)
                    (publish (topic e) (message e)
                       (bag_time_call rp (Step_time (record_time e)) w1))
             else key_loop n rp e pt w1)
          else if is_EOF c then
            (if paused rp then key_loop n rp e pt (usleep 10000 w1)
             else Left rp pt w1)
          else key_loop n rp e pt w1)"

text \<open>
  The outer loop
  \<^verbatim>\<open>while ( (paused_ || delta > ros::Duration(0,100000)) && ros::Node::instance()->ok())\<close>,
  with \<open>delta\<close> in nanoseconds. It ends with the \<^verbatim>\<open>return\<close> of the step key (\<open>Returned\<close>) or
  by leaving the loop (\<open>Waited\<close>, with \<open>delta\<close>), or is cut off at the bound (\<open>Wait_cut\<close>).
\<close>

datatype wait_exit = Returned rosplay world | Waited rosplay int world | Wait_cut rosplay world

fun wait_loop :: "nat \<Rightarrow> rosplay \<Rightarrow> envelope \<Rightarrow> int \<Rightarrow> int \<Rightarrow> world \<Rightarrow> wait_exit" where
  "wait_loop 0 rp e pt delta w = Wait_cut rp w"
| "wait_loop (Suc n) rp e pt delta w =
     (if (paused rp \<or> 100000 < delta) \<and> node_ok w then
        (case key_loop n rp e pt w of
           Key_cut rp1 pt1 w1 \<Rightarrow> Wait_cut rp1 w1
         | Stepped rp1 w1 \<Rightarrow> Returned rp1 w1
         | Left rp1 pt1 w1 \<Rightarrow>
             (let w2 = usleep 100000 w1
              in wait_loop n rp1 e pt1 (pt1 - getSysTime w2) w2))
      else Waited rp delta w)"

text \<open>
  \<^verbatim>\<open>
  void RosPlay::doPublish(string name, ros::Message* m, ros::Time play_time, ros::Time record_time, void* n)
  {
    if (play_time < requested_start_time_)
      return;
    ...
    if (!at_once_){
      ros::Duration delta = play_time - getSysTime();
      while ...
      if (!paused_ && delta > ros::Duration(0, 5000) && ros::Node::instance()->ok())
        usleep(delta.toNSec()/1000 - 5);
    }
    ros::Node::instance()->publish(name, *m);
  }
  \<close>
  A call has returned (\<open>Ended\<close>), with the object and the world as it left them, or it is
  still in its loops when the bound on their rounds is reached (\<open>Cut\<close>), with the object
  and the world as they are then.
\<close>

datatype run = Ended rosplay world | Cut rosplay world

definition doPublish :: "nat \<Rightarrow> rosplay \<Rightarrow> envelope \<Rightarrow> world \<Rightarrow> run" where
  "doPublish fuel rp e w =
     (if play_time e < requested_start_time rp then Ended rp w
      else case announce rp e w of
        (rp1, w1) \<Rightarrow>
          if \<not> at_once rp1 then
            (case wait_loop fuel rp1 e (play_time e) (play_time e - getSysTime w1) w1 of
               Wait_cut rp2 w2 \<Rightarrow> Cut rp2 w2
             | Returned rp2 w2 \<Rightarrow> Ended rp2 w2
             | Waited rp2 delta w2 \<Rightarrow>
                 (let w3 = (if \<not> paused rp2 \<and> 5000 < delta \<and> node_ok w2
                            then usleep (word_of_int (delta div 1000 - 5)) w2 else w2)
                  in Ended rp2 (publish (topic e) (message e) w3)))
          else Ended rp1 (publish (topic e) (message e) w1))"

subsection \<open>spin and main\<close>

text \<open>
  The loop of \<open>spin\<close> over the envelopes of the player: \<open>nextMsg\<close> calls the handler, if it
  was added, on the next envelope, and returns false when there is none. The loop is cut
  off where a call of \<open>doPublish\<close> is.
\<close>

fun spin_loop :: "nat \<Rightarrow> rosplay \<Rightarrow> envelope list \<Rightarrow> world \<Rightarrow> run" where
  "spin_loop fuel rp [] w = Ended rp w"
| "spin_loop fuel rp (e # es) w =
     (if \<not> node_ok w then Ended rp w
      else if handler_added rp then
        (case doPublish fuel rp e w of
           Cut rp1 w1 \<Rightarrow> Cut rp1 w1
         | Ended rp1 w1 \<Rightarrow> spin_loop fuel rp1 es w1)
      else spin_loop fuel rp es w)"

text \<open>\<open>spin\<close>, when it returns: the object and the world it leaves. \<open>None\<close> says it is cut off.\<close>

definition spin :: "nat \<Rightarrow> rosplay \<Rightarrow> envelope list \<Rightarrow> world \<Rightarrow> (rosplay \<times> world) option" where
  "spin fuel rp es w =
     (if node_ok w then
        (case spin_loop fuel rp es w of
           Ended rp1 w1 \<Rightarrow> Some (rp1, w1)
         | Cut rp1 w1 \<Rightarrow> None)
      else Some (rp, w))"

text \<open>
  \<open>main\<close>: check mode when some argument is \<open>-c\<close>; otherwise the node (\<^verbatim>\<open>ros::init\<close> and
  the constructor of \<^verbatim>\<open>ros::Node\<close>, after which the node is ok), the player, \<open>spin\<close>, a
  sleep of a second, exit code 0, and the destructor of the player. The envelopes are
  those of the bags left at \<open>optind\<close> by the constructor's option loop.
\<close>

definition main :: "nat \<Rightarrow> string list \<Rightarrow> bags \<Rightarrow> world \<Rightarrow> (exit \<times> world) option" where
  "main fuel argv env w =
     (if ''-c'' \<in> set argv then Some (main_check argv env w)
      else
        (let w1 = emit Node_created (w\<lparr>node_ok := True\<rparr>) in
         case RosPlay_ctor argv env w1 of
           (rp, w2) \<Rightarrow>
             (case spin fuel rp (feed env (snd (getopt_scan ''ncahpb:r:s:t:q:'' (tl argv)))) w2 of
                None \<Rightarrow> None
              | Some (rp1, w3) \<Rightarrow> Some (Exit 0, RosPlay_dtor rp1 (usleep 1000000 w3)))))"

subsection \<open>A terminal, a bag and a command line to run the program on\<close>

definition cooked_tty :: termios where
  "cooked_tty =
     \<lparr>c_iflag = 0x500, c_oflag = 0x5, c_cflag = 0xBF, c_lflag = 0x8A3B, c_line = 0,
      c_cc = (\<lambda>i. 0)(VTIME := 0, VMIN := 1), c_ispeed = 0xF, c_ospeed = 0xF\<rparr>"

definition idle_world :: world where
  "idle_world =
     \<lparr>tty = cooked_tty, keys = [], stdin_eof = False, sticky_eof = True,
      clock = 1000000000000, node_ok = False, advertised = [], log = []\<rparr>"

definition scan_msg :: msg where
  "scan_msg = \<lparr>getDataType = ''std_msgs/LaserScan'', getMD5Sum = ''bc29'', body = ''s''\<rparr>"

definition odom_msg :: msg where
  "odom_msg = \<lparr>getDataType = ''std_msgs/RobotBase2DOdom'', getMD5Sum = ''4e21'', body = ''o''\<rparr>"

text \<open>
  A bag of three envelopes on two topics, recorded at 0, 1 and 2 seconds and scheduled
  for the same offsets after second 1000; any other name does not open.
\<close>

definition demo_feed :: "envelope list" where
  "demo_feed =
     [\<lparr>topic = ''/scan'', message = scan_msg, play_time = 1000000000000, record_time = 0\<rparr>,
      \<lparr>topic = ''/odom'', message = odom_msg, play_time = 1001000000000, record_time = 1000000000\<rparr>,
      \<lparr>topic = ''/scan'', message = scan_msg, play_time = 1002000000000, record_time = 2000000000\<rparr>]"

definition demo_bags :: bags where
  "demo_bags =
     \<lparr>open_ok = (\<lambda>bs. bs = [''demo.bag'']),
      feed = (\<lambda>bs. if bs = [''demo.bag''] then demo_feed else []),
      first_duration = (\<lambda>bs. 5000000000),
      atoi = (\<lambda>s. 10),
      atof_usec = (\<lambda>s. 200000),
      minus_atof_nsec = (\<lambda>s. - 10000000000)\<rparr>"

text \<open>
  The world once the node is up, and the player that \<open>rosplay -r 2 -t 10 demo.bag\<close>
  constructs in it at second 1000.
\<close>

definition playing_world :: world where
  "playing_world = idle_world\<lparr>node_ok := True\<rparr>"

definition demo_player :: rosplay where
  "demo_player =
     (rosplay0 cooked_tty)\<lparr>time_scale := Some ''2'', start_time := 1000000000000,
                            requested_start_time := 1000000000000, handler_added := True\<rparr>"

subsection \<open>Kinds of calls\<close>

text \<open>The calls that open a bag, register the handler, advertise a topic or publish a message.\<close>

fun player_event :: "event \<Rightarrow> bool" where
  "player_event (Player_open bs t s) = True"
| "player_event Add_handler = True"
| "player_event (Advertise n q) = True"
| "player_event (Publish n m) = True"
| "player_event ev = False"

text \<open>The messages published, in order.\<close>

fun published :: "event list \<Rightarrow> (string \<times> msg) list" where
  "published [] = []"
| "published (Publish n m # evs) = (n, m) # published evs"
| "published (ev # evs) = published evs"

text \<open>The topics of the calls of \<open>advertise\<close>, in order.\<close>

fun advertises :: "event list \<Rightarrow> string list" where
  "advertises [] = []"
| "advertises (Advertise n q # evs) = n # advertises evs"
| "advertises (ev # evs) = advertises evs"

subsection \<open>The start offset, in the words of the specification\<close>

text \<open>
  Modelled from the spec: the player class that computes the play time of an envelope is
  not in the sources. The spec gives
  \<open>play_time(env) = wall_start + (env.record_time - first_record_time) / time_scale + cumulative_shift\<close>;
  here the time scale is a positive whole number.
\<close>

definition spec_play_time :: "int \<Rightarrow> int \<Rightarrow> int \<Rightarrow> int \<Rightarrow> int \<Rightarrow> int" where
  "spec_play_time wall_start first_record_time scale cumulative_shift rec_time =
     wall_start + (rec_time - first_record_time) div scale + cumulative_shift"

text \<open>
  The rule of the spec for dropping an envelope, \<open>e.record_time\<close> is before
  \<open>requested_start_offset\<close>: the envelope was recorded less than the offset after the first
  one.
\<close>

definition spec_before_start_offset :: "int \<Rightarrow> int \<Rightarrow> envelope \<Rightarrow> bool" where
  "spec_before_start_offset first_record_time requested_start_offset e =
     (record_time e - first_record_time < requested_start_offset)"

subsection \<open>What playing leaves alone\<close>

text \<open>
  The terminal, whether the node is ok, how \<^verbatim>\<open>stdin\<close> treats its end-of-file indicator,
  and the members of the player that only the constructor sets.
\<close>

definition unchanged :: "rosplay \<Rightarrow> world \<Rightarrow> rosplay \<Rightarrow> world \<Rightarrow> bool" where
  "unchanged rp w rp' w' =
     (tty w' = tty w \<and> node_ok w' = node_ok w \<and> sticky_eof w' = sticky_eof w
      \<and> orig_flags rp' = orig_flags rp \<and> at_once rp' = at_once rp
      \<and> handler_added rp' = handler_added rp
      \<and> requested_start_time rp' = requested_start_time rp
      \<and> bag_time rp' = bag_time rp \<and> advertise_sleep rp' = advertise_sleep rp
      \<and> queue_size rp' = queue_size rp)"

section \<open>Theorems\<close>

subsection \<open>NodeHandle::param\<close>

text \<open>
  C9. For every call \<open>param(name, val, default_val)\<close>: \<open>val\<close> ends up holding what
  \<open>getParam\<close> stored (the server's value) when \<open>hasParam(name)\<close> is true and
  \<open>getParam(name, val)\<close> succeeds, and holds \<open>default_val\<close> in every other case: the
  parameter is absent, or the retrieval fails.
\<close>

theorem param_server_value_or_default:
  "param srv name val default_val =
     (if hasParam srv name \<and> fst (getParam srv name val)
      then snd (getParam srv name val) else default_val)"
  by (simp add: param_def split: prod.splits bool.splits)

subsection \<open>OS::detect\<close>

text \<open>
  C8. In every environment in which \<open>ROSDEP_OS_NAME\<close> is set, \<open>detect\<close> returns true with
  that value as the name and consults no file and no pipe; the version argument equals
  \<open>ROSDEP_OS_VERSION\<close> exactly when that variable is set too (it keeps the caller's value
  otherwise), and the object's own \<open>version\<close> member is not touched.
\<close>

theorem detect_override:
  assumes "getenv w ''ROSDEP_OS_NAME'' = Some n"
  shows "fst (detect w s) = Inr True
       \<and> name_arg (snd (detect w s)) = n
       \<and> consulted (snd (detect w s)) = consulted s
       \<and> ((getenv w ''ROSDEP_OS_VERSION'' = Some (ver_arg (snd (detect w s))))
            = (getenv w ''ROSDEP_OS_VERSION'' \<noteq> None))
       \<and> (getenv w ''ROSDEP_OS_VERSION'' = None \<longrightarrow> ver_arg (snd (detect w s)) = ver_arg s)
       \<and> version_member (snd (detect w s)) = version_member s"
  using assms by (auto simp: detect_def Let_def split: option.splits)

theorem detect_override_witness:
  "fst (detect \<lparr>getenv = [''ROSDEP_OS_NAME'' \<mapsto> ''debian''], file_exists = (\<lambda>p. True),
                 issue_text = None, fclose_fails = False, sw_vers_output = None\<rparr>
          \<lparr>name_arg = ''unknown'', ver_arg = ''0'', version_member = [], consulted = []\<rparr>)
     = Inr True
   \<and> name_arg (snd (detect \<lparr>getenv = [''ROSDEP_OS_NAME'' \<mapsto> ''debian''], file_exists = (\<lambda>p. True),
                 issue_text = None, fclose_fails = False, sw_vers_output = None\<rparr>
          \<lparr>name_arg = ''unknown'', ver_arg = ''0'', version_member = [], consulted = []\<rparr>))
     = ''debian''
   \<and> ver_arg (snd (detect \<lparr>getenv = [''ROSDEP_OS_NAME'' \<mapsto> ''debian''], file_exists = (\<lambda>p. True),
                 issue_text = None, fclose_fails = False, sw_vers_output = None\<rparr>
          \<lparr>name_arg = ''unknown'', ver_arg = ''0'', version_member = [], consulted = []\<rparr>))
     = ''0''"
  using detect_override [of "\<lparr>getenv = [''ROSDEP_OS_NAME'' \<mapsto> ''debian''], file_exists = (\<lambda>p. True),
                 issue_text = None, fclose_fails = False, sw_vers_output = None\<rparr>" "''debian''"
          "\<lparr>name_arg = ''unknown'', ver_arg = ''0'', version_member = [], consulted = []\<rparr>"]
  by simp

subsection \<open>The service-call test\<close>

lemma wait_ready_Some_ready:
  "wait_ready w k = Some y \<Longrightarrow> node_getParam w y ''advertisers_ready''"
  by (rule wait_ready.raw_induct [where P = "\<lambda>w k y. node_getParam w y ''advertisers_ready''"])
     (auto split: if_splits)

lemma wait_ready_never:
  "\<forall>j. \<not> node_getParam w j ''advertisers_ready'' \<Longrightarrow> wait_ready w k = None"
  using wait_ready_Some_ready [of w k] by (cases "wait_ready w k") auto

lemma wait_ready_at:
  "node_getParam w (k + d) ''advertisers_ready'' \<Longrightarrow>
   \<forall>j<k + d. k \<le> j \<longrightarrow> \<not> node_getParam w j ''advertisers_ready'' \<Longrightarrow>
   wait_ready w k = Some (k + d)"
proof (induction d arbitrary: k)
  case 0
  then show ?case by (simp add: wait_ready.simps)
next
  case (Suc d)
  have "\<not> node_getParam w k ''advertisers_ready''"
    using Suc.prems(2) by simp
  moreover have "wait_ready w (Suc k) = Some (Suc k + d)"
    by (rule Suc.IH) (use Suc.prems in auto)
  ultimately show ?case
    by (subst wait_ready.simps) simp
qed

text \<open>
  C7. The client of the service-call test blocks until the parameter
  \<open>advertisers_ready\<close> is retrievable: while no call of \<open>getParam\<close> succeeds the test body
  does not return (and so calls no service), and when the \<open>k\<close>-th call is the first to
  succeed it has slept \<open>k\<close> times. It then calls the service \<open>service_adv\<close> once, with the
  request string \<open>nothing\<close>, and passes exactly when the call returns true and the
  response string, read as a C string, is \<open>B\<close>; a false return fails \<^verbatim>\<open>ASSERT_TRUE\<close>, any
  other response fails \<^verbatim>\<open>ASSERT_STREQ\<close>.
\<close>

theorem callSrv_waits_then_expects_B:
  "((\<forall>j. \<not> node_getParam w j ''advertisers_ready'') \<longrightarrow> callSrv w = None) \<and>
   (node_getParam w k ''advertisers_ready'' \<and> (\<forall>j<k. \<not> node_getParam w j ''advertisers_ready'') \<longrightarrow>
      callSrv w =
        Some \<lparr>sleeps = k, calls = [(''service_adv'', ''nothing'')],
              outcome =
                (if fst (service_call w ''service_adv'' ''nothing'' []) then
                   if c_str (snd (service_call w ''service_adv'' ''nothing'' [])) = ''B''
                   then Passed else Failed_ASSERT_STREQ
                 else Failed_ASSERT_TRUE)\<rparr>)"
proof (intro conjI impI)
  assume "\<forall>j. \<not> node_getParam w j ''advertisers_ready''"
  then have "wait_ready w 0 = None"
    by (rule wait_ready_never)
  then show "callSrv w = None"
    by (simp add: callSrv_def)
next
  assume a: "node_getParam w k ''advertisers_ready'' \<and>
             (\<forall>j<k. \<not> node_getParam w j ''advertisers_ready'')"
  have "wait_ready w 0 = Some (0 + k)"
    by (rule wait_ready_at) (use a in auto)
  then show "callSrv w =
        Some \<lparr>sleeps = k, calls = [(''service_adv'', ''nothing'')],
              outcome =
                (if fst (service_call w ''service_adv'' ''nothing'' []) then
                   if c_str (snd (service_call w ''service_adv'' ''nothing'' [])) = ''B''
                   then Passed else Failed_ASSERT_STREQ
                 else Failed_ASSERT_TRUE)\<rparr>"
    by (cases "service_call w ''service_adv'' ''nothing'' []") (simp add: callSrv_def Let_def)
qed

theorem callSrv_waits_then_expects_B_witness:
  "callSrv \<lparr>node_getParam = (\<lambda>k key. key = ''advertisers_ready'' \<and> 2 \<le> k),
            service_call = (\<lambda>name req res. (name = ''service_adv'', ''B''))\<rparr>
     = Some \<lparr>sleeps = 2, calls = [(''service_adv'', ''nothing'')], outcome = Passed\<rparr>
   \<and> callSrv \<lparr>node_getParam = (\<lambda>k key. False),
              service_call = (\<lambda>name req res. (True, ''B''))\<rparr> = None"
proof -
  let ?w = "\<lparr>node_getParam = (\<lambda>k key. key = ''advertisers_ready'' \<and> (2::nat) \<le> k),
             service_call = (\<lambda>name req res. (name = ''service_adv'', ''B''))\<rparr>"
  let ?v = "\<lparr>node_getParam = (\<lambda>k key. False),
             service_call = (\<lambda>name req res. (True, ''B''))\<rparr>"
  have ready: "node_getParam ?w 2 ''advertisers_ready'' \<and>
               (\<forall>j<2. \<not> node_getParam ?w j ''advertisers_ready'')"
    by simp
  have never: "\<forall>j. \<not> node_getParam ?v j ''advertisers_ready''"
    by simp
  from callSrv_waits_then_expects_B [of ?w 2] ready
  have "callSrv ?w = Some \<lparr>sleeps = 2, calls = [(''service_adv'', ''nothing'')], outcome = Passed\<rparr>"
    by (simp add: c_str_def)
  moreover from callSrv_waits_then_expects_B [of ?v 0] never
  have "callSrv ?v = None"
    by blast
  ultimately show ?thesis
    by simp
qed

subsection \<open>Check mode\<close>

lemma checkFile_content:
  "g_content (checkFile e g) t =
     (if topic e = t then
        (case g_content g t of
           None \<Rightarrow> Some \<lparr>data_type = getDataType (message e), md5sum = getMD5Sum (message e),
                          count = 1\<rparr>
         | Some i \<Rightarrow> Some (i\<lparr>count := count i + 1\<rparr>))
      else g_content g t)"
  by (simp add: checkFile_def split: option.splits)

lemma checkFile_end_time: "g_end_time (checkFile e g) = word_of_int (play_time e)"
  by (simp add: checkFile_def split: option.splits)

lemma fold_checkFile_seen:
  "g_content g t = Some i \<Longrightarrow>
   g_content (fold checkFile es g) t =
     Some (i\<lparr>count := count i + of_nat (length (filter (\<lambda>e. topic e = t) es))\<rparr>)"
proof (induction es arbitrary: g i)
  case Nil
  then show ?case by simp
next
  case (Cons e es)
  show ?case
  proof (cases "topic e = t")
    case True
    with Cons.prems have "g_content (checkFile e g) t = Some (i\<lparr>count := count i + 1\<rparr>)"
      by (simp add: checkFile_content)
    from Cons.IH [OF this] True show ?thesis
      by (simp add: add.assoc add.commute)
  next
    case False
    with Cons.prems have "g_content (checkFile e g) t = Some i"
      by (simp add: checkFile_content)
    from Cons.IH [OF this] False show ?thesis
      by simp
  qed
qed

lemma fold_checkFile_unseen:
  "g_content g t = None \<Longrightarrow>
   g_content (fold checkFile es g) t =
     (case filter (\<lambda>e. topic e = t) es of
        [] \<Rightarrow> None
      | e1 # r \<Rightarrow> Some \<lparr>data_type = getDataType (message e1), md5sum = getMD5Sum (message e1),
                         count = of_nat (Suc (length r))\<rparr>)"
proof (induction es arbitrary: g)
  case Nil
  then show ?case by simp
next
  case (Cons e es)
  show ?case
  proof (cases "topic e = t")
    case True
    with Cons.prems have "g_content (checkFile e g) t =
        Some \<lparr>data_type = getDataType (message e), md5sum = getMD5Sum (message e), count = 1\<rparr>"
      by (simp add: checkFile_content)
    from fold_checkFile_seen [OF this] True show ?thesis
      by simp
  next
    case False
    with Cons.prems have "g_content (checkFile e g) t = None"
      by (simp add: checkFile_content)
    from Cons.IH [OF this] False show ?thesis
      by simp
  qed
qed

lemma scan_bag_topic:
  assumes "open_ok env [b]" and "e \<in> set (feed env [b])"
  shows "g_content (scan_bag env b) (topic e) =
     Some \<lparr>data_type = getDataType (message (hd (filter (\<lambda>x. topic x = topic e) (feed env [b])))),
           md5sum = getMD5Sum (message (hd (filter (\<lambda>x. topic x = topic e) (feed env [b])))),
           count = of_nat (length (filter (\<lambda>x. topic x = topic e) (feed env [b])))\<rparr>"
proof -
  from assms(2) have "filter (\<lambda>x. topic x = topic e) (feed env [b]) \<noteq> []"
    by (auto simp: filter_empty_conv)
  then obtain e1 r where "filter (\<lambda>x. topic x = topic e) (feed env [b]) = e1 # r"
    by (cases "filter (\<lambda>x. topic x = topic e) (feed env [b])") auto
  with assms(1) show ?thesis
    by (simp add: scan_bag_def globals0_def fold_checkFile_unseen)
qed

lemma scan_bag_dom:
  assumes "open_ok env [b]"
  shows "dom (g_content (scan_bag env b)) = topic ` set (feed env [b])"
proof -
  have "(g_content (scan_bag env b) t = None) = (filter (\<lambda>e. topic e = t) (feed env [b]) = [])"
    for t
    using assms by (simp add: scan_bag_def globals0_def fold_checkFile_unseen split: list.splits)
  then have "(g_content (scan_bag env b) t \<noteq> None) = (t \<in> topic ` set (feed env [b]))" for t
    by (auto simp: filter_empty_conv)
  then show ?thesis
    by (auto simp: dom_def)
qed

lemma sint_of_nat_small: "n < 2 ^ 31 \<Longrightarrow> sint (of_nat n :: 32 word) = int n"
  by (simp add: signed_of_nat signed_take_bit_int_eq_self)

lemma sint_add_no_overflow:
  fixes a b :: "64 word"
  assumes "- (2 ^ 63) \<le> sint a + sint b" and "sint a + sint b < 2 ^ 63"
  shows "sint (a + b) = sint a + sint b"
  using assms by (simp add: sint_word_ariths signed_take_bit_int_eq_self)

lemma check_options_only_c:
  "\<forall>r \<in> set opts. \<exists>a. r = Opt CHR ''c'' a \<Longrightarrow> check_options opts w = (None, w)"
  by (induction opts) auto

lemma main_check_scans:
  assumes "getopt_scan ''cahpt:q:'' (tl argv) = (opts, [b])"
    and "\<forall>r \<in> set opts. \<exists>a. r = Opt CHR ''c'' a"
  shows "main_check argv env w =
     (Exit 0, emit (Report (check_report env b))
                (if open_ok env [b] then emit Add_handler (emit (Player_open [b] 0 None) w)
                 else emit (Player_open [b] 0 None) w))"
  using assms by (simp add: main_check_def check_options_only_c Let_def)

text \<open>
  C2. A run of check mode on one bag that opens, with no option but \<open>-c\<close>, returns 0 after
  opening the bag, adding the handler and printing one report. The report maps exactly
  the topics of the bag's envelopes; each maps to the data type and the MD5 sum of the
  first message on that topic and to a count that is the number of envelopes on the topic
  (as a 32-bit \<^verbatim>\<open>int\<close>: the number itself below \<open>2^31\<close>). The end time printed is the start
  time plus the length, in the 64-bit arithmetic of the program, and as the signed numbers
  \<^verbatim>\<open>%lld\<close> prints whenever that sum fits 64 bits.
\<close>

theorem check_mode_report:
  assumes "''-c'' \<in> set argv"
    and "getopt_scan ''cahpt:q:'' (tl argv) = (opts, [b])"
    and "\<forall>r \<in> set opts. \<exists>a. r = Opt CHR ''c'' a"
    and "open_ok env [b]"
  shows "main fuel argv env w =
           Some (Exit 0, w\<lparr>log := log w @ [Player_open [b] 0 None, Add_handler,
                                             Report (check_report env b)]\<rparr>)
       \<and> dom (topics (check_report env b)) = topic ` set (feed env [b])
       \<and> (\<forall>e \<in> set (feed env [b]). \<exists>i.
             topics (check_report env b) (topic e) = Some i
           \<and> data_type i =
               getDataType (message (hd (filter (\<lambda>x. topic x = topic e) (feed env [b]))))
           \<and> md5sum i =
               getMD5Sum (message (hd (filter (\<lambda>x. topic x = topic e) (feed env [b]))))
           \<and> count i = of_nat (length (filter (\<lambda>x. topic x = topic e) (feed env [b])))
           \<and> (length (filter (\<lambda>x. topic x = topic e) (feed env [b])) < 2 ^ 31 \<longrightarrow>
                sint (count i) = int (length (filter (\<lambda>x. topic x = topic e) (feed env [b])))))
       \<and> report_end_time (check_report env b) =
           report_start_time (check_report env b) + report_length (check_report env b)
       \<and> (- (2 ^ 63) \<le> sint (report_start_time (check_report env b))
                         + sint (report_length (check_report env b))
          \<and> sint (report_start_time (check_report env b))
              + sint (report_length (check_report env b)) < 2 ^ 63 \<longrightarrow>
            sint (report_end_time (check_report env b)) =
              sint (report_start_time (check_report env b))
              + sint (report_length (check_report env b)))"
proof (intro conjI ballI impI)
  show "main fuel argv env w =
           Some (Exit 0, w\<lparr>log := log w @ [Player_open [b] 0 None, Add_handler,
                                             Report (check_report env b)]\<rparr>)"
    using assms by (simp add: main_def main_check_scans emit_def)
next
  show "dom (topics (check_report env b)) = topic ` set (feed env [b])"
    using scan_bag_dom [OF assms(4)] by (simp add: check_report_def Let_def)
next
  fix e
  assume e: "e \<in> set (feed env [b])"
  let ?n = "length (filter (\<lambda>x. topic x = topic e) (feed env [b]))"
  have "topics (check_report env b) (topic e) = g_content (scan_bag env b) (topic e)"
    by (simp add: check_report_def Let_def)
  with scan_bag_topic [OF assms(4) e]
  show "\<exists>i. topics (check_report env b) (topic e) = Some i
           \<and> data_type i =
               getDataType (message (hd (filter (\<lambda>x. topic x = topic e) (feed env [b]))))
           \<and> md5sum i =
               getMD5Sum (message (hd (filter (\<lambda>x. topic x = topic e) (feed env [b]))))
           \<and> count i = of_nat ?n
           \<and> (?n < 2 ^ 31 \<longrightarrow> sint (count i) = int ?n)"
    by (simp add: sint_of_nat_small)
next
  show "report_end_time (check_report env b) =
           report_start_time (check_report env b) + report_length (check_report env b)"
    by (simp add: check_report_def Let_def)
next
  assume "- (2 ^ 63) \<le> sint (report_start_time (check_report env b))
                         + sint (report_length (check_report env b))
          \<and> sint (report_start_time (check_report env b))
              + sint (report_length (check_report env b)) < 2 ^ 63"
  moreover have "report_end_time (check_report env b) =
           report_start_time (check_report env b) + report_length (check_report env b)"
    by (simp add: check_report_def Let_def)
  ultimately show "sint (report_end_time (check_report env b)) =
              sint (report_start_time (check_report env b))
              + sint (report_length (check_report env b))"
    by (simp add: sint_add_no_overflow)
qed

theorem check_mode_report_witness:
  "main 0 [''rosplay'', ''-c'', ''demo.bag''] demo_bags idle_world =
     Some (Exit 0, idle_world\<lparr>log := log idle_world @
              [Player_open [''demo.bag''] 0 None, Add_handler,
               Report (check_report demo_bags ''demo.bag'')]\<rparr>)
   \<and> (\<exists>i. topics (check_report demo_bags ''demo.bag'') ''/scan'' = Some i
          \<and> data_type i = ''std_msgs/LaserScan'' \<and> sint (count i) = 2)
   \<and> sint (report_end_time (check_report demo_bags ''demo.bag'')) =
       sint (report_start_time (check_report demo_bags ''demo.bag''))
       + sint (report_length (check_report demo_bags ''demo.bag''))"
proof -
  let ?argv = "[''rosplay'', ''-c'', ''demo.bag'']"
  let ?e = "\<lparr>topic = ''/scan'', message = scan_msg, play_time = 1000000000000, record_time = 0\<rparr>"
  have h1: "''-c'' \<in> set ?argv"
    by simp
  have h2: "getopt_scan ''cahpt:q:'' (tl ?argv) = ([Opt CHR ''c'' None], [''demo.bag''])"
    by simp
  have h3: "\<forall>r \<in> set [Opt CHR ''c'' None]. \<exists>a. r = Opt CHR ''c'' a"
    by simp
  have h4: "open_ok demo_bags [''demo.bag'']"
    by (simp add: demo_bags_def)
  have e: "?e \<in> set (feed demo_bags [''demo.bag''])"
    by (simp add: demo_bags_def demo_feed_def)
  have n: "length (filter (\<lambda>x. topic x = topic ?e) (feed demo_bags [''demo.bag''])) = 2"
    by (simp add: demo_bags_def demo_feed_def)
  have t: "report_start_time (check_report demo_bags ''demo.bag'') = 5000000000"
    "report_length (check_report demo_bags ''demo.bag'') = 1002000000000"
    by (simp_all add: check_report_def scan_bag_def demo_bags_def demo_feed_def globals0_def
          checkFile_def Let_def)
  note inst = check_mode_report [OF h1 h2 h3 h4, of 0 idle_world]
  from inst have "main 0 ?argv demo_bags idle_world =
     Some (Exit 0, idle_world\<lparr>log := log idle_world @
              [Player_open [''demo.bag''] 0 None, Add_handler,
               Report (check_report demo_bags ''demo.bag'')]\<rparr>)"
    by blast
  moreover from inst e n
  have "\<exists>i. topics (check_report demo_bags ''demo.bag'') ''/scan'' = Some i
          \<and> data_type i = ''std_msgs/LaserScan'' \<and> sint (count i) = 2"
    by (fastforce simp: demo_bags_def demo_feed_def scan_msg_def)
  moreover from inst t
  have "sint (report_end_time (check_report demo_bags ''demo.bag'')) =
       sint (report_start_time (check_report demo_bags ''demo.bag''))
       + sint (report_length (check_report demo_bags ''demo.bag''))"
    by simp
  ultimately show ?thesis
    by blast
qed

lemma check_options_rejects:
  assumes "\<forall>r \<in> set pre. \<exists>a. r = Opt CHR ''c'' a"
    and "x \<in> {CHR ''a'', CHR ''p'', CHR ''t'', CHR ''q''}"
  shows "check_options (pre @ Opt x arg # post) w =
     (Some 1, emit (Stderr (''Option -'' @ [x] @ '' is not valid when checking bag'' @ nl)) w)"
  using assms by (induction pre) auto

lemma check_options_help:
  assumes "\<forall>r \<in> set pre. \<exists>a. r = Opt CHR ''c'' a"
  shows "check_options (pre @ Opt CHR ''h'' arg # post) w = (Some 0, print_help w)"
    and "check_options (pre @ Unknown x # post) w
           = (Some 0, print_usage (emit (Getopt_diagnostic x) w))"
  using assms by (induction pre) auto

text \<open>
  C3, as the code has it. \<open>main\<close> is in check mode when some argument is the word \<open>-c\<close>
  itself. Then the results of \<open>getopt\<close> are taken in order, and the first one that is not
  \<open>-c\<close> decides. When that one is the option \<open>-a\<close> or \<open>-p\<close>, or \<open>-t\<close> or \<open>-q\<close> with its
  argument, the program prints \<open>Option -x is not valid when checking bag\<close> on the
  standard error and returns 1. When \<open>getopt\<close> yields nothing but \<open>-c\<close> and more than one
  bag is left, it prints \<open>Only 1 bag can be checked at a time\<close> and returns 1. In both
  cases that one line is all the program does: no node is created, no bag is opened,
  nothing is published. When the first result that is not \<open>-c\<close> is \<open>-h\<close>, or is \<open>'?'\<close> (a
  letter that is not an option, or \<open>-t\<close> or \<open>-q\<close> without its argument), the program
  prints the help or the usage and returns 0, whatever follows.
\<close>

theorem check_mode_rejects:
  assumes "''-c'' \<in> set argv"
    and "getopt_scan ''cahpt:q:'' (tl argv) = (opts, rest)"
  shows "(opts = pre @ Opt x arg # post \<and> (\<forall>r \<in> set pre. \<exists>a. r = Opt CHR ''c'' a)
           \<and> x \<in> {CHR ''a'', CHR ''p'', CHR ''t'', CHR ''q''} \<longrightarrow>
          main fuel argv env w =
            Some (Exit 1,
                  emit (Stderr (''Option -'' @ [x] @ '' is not valid when checking bag'' @ nl)) w))
       \<and> ((\<forall>r \<in> set opts. \<exists>a. r = Opt CHR ''c'' a) \<and> 1 < length rest \<longrightarrow>
          main fuel argv env w =
            Some (Exit 1, emit (Stderr (''Only 1 bag can be checked at a time'' @ nl)) w))
       \<and> (opts = pre @ Opt CHR ''h'' arg # post \<and> (\<forall>r \<in> set pre. \<exists>a. r = Opt CHR ''c'' a) \<longrightarrow>
          main fuel argv env w = Some (Exit 0, print_help w))
       \<and> (opts = pre @ Unknown x # post \<and> (\<forall>r \<in> set pre. \<exists>a. r = Opt CHR ''c'' a) \<longrightarrow>
          main fuel argv env w = Some (Exit 0, print_usage (emit (Getopt_diagnostic x) w)))"
  using assms
  by (auto simp: main_def main_check_def check_options_rejects check_options_only_c
        check_options_help)

theorem check_mode_rejects_witness:
  "main 0 [''rosplay'', ''-c'', ''-t'', ''5'', ''demo.bag''] demo_bags idle_world =
     Some (Exit 1,
           emit (Stderr (''Option -t is not valid when checking bag'' @ nl)) idle_world)
   \<and> main 0 [''rosplay'', ''-c'', ''demo.bag'', ''other.bag''] demo_bags idle_world =
     Some (Exit 1, emit (Stderr (''Only 1 bag can be checked at a time'' @ nl)) idle_world)
   \<and> main 0 [''rosplay'', ''-c'', ''-h'', ''-a'', ''demo.bag''] demo_bags idle_world =
     Some (Exit 0, print_help idle_world)
   \<and> main 0 [''rosplay'', ''-c'', ''-n'', ''demo.bag''] demo_bags idle_world =
     Some (Exit 0, print_usage (emit (Getopt_diagnostic CHR ''n'') idle_world))
   \<and> main 0 [''rosplay'', ''-c'', ''demo.bag'', ''-t''] demo_bags idle_world =
     Some (Exit 0, print_usage (emit (Getopt_diagnostic CHR ''t'') idle_world))"
proof -
  have a: "''-c'' \<in> set [''rosplay'', ''-c'', ''-t'', ''5'', ''demo.bag'']"
    by simp
  have b: "getopt_scan ''cahpt:q:'' (tl [''rosplay'', ''-c'', ''-t'', ''5'', ''demo.bag'']) =
             ([Opt CHR ''c'' None] @ Opt CHR ''t'' (Some ''5'') # [], [''demo.bag''])"
    by simp
  have c: "''-c'' \<in> set [''rosplay'', ''-c'', ''demo.bag'', ''other.bag'']"
    by simp
  have d: "getopt_scan ''cahpt:q:'' (tl [''rosplay'', ''-c'', ''demo.bag'', ''other.bag'']) =
             ([Opt CHR ''c'' None], [''demo.bag'', ''other.bag''])"
    by simp
  have e: "''-c'' \<in> set [''rosplay'', ''-c'', ''-h'', ''-a'', ''demo.bag'']"
    by simp
  have f: "getopt_scan ''cahpt:q:'' (tl [''rosplay'', ''-c'', ''-h'', ''-a'', ''demo.bag'']) =
             ([Opt CHR ''c'' None] @ Opt CHR ''h'' None # [Opt CHR ''a'' None], [''demo.bag''])"
    by simp
  have g: "''-c'' \<in> set [''rosplay'', ''-c'', ''-n'', ''demo.bag'']"
    by simp
  have h: "getopt_scan ''cahpt:q:'' (tl [''rosplay'', ''-c'', ''-n'', ''demo.bag'']) =
             ([Opt CHR ''c'' None] @ Unknown CHR ''n'' # [], [''demo.bag''])"
    by simp
  have i: "''-c'' \<in> set [''rosplay'', ''-c'', ''demo.bag'', ''-t'']"
    by simp
  have j: "getopt_scan ''cahpt:q:'' (tl [''rosplay'', ''-c'', ''demo.bag'', ''-t'']) =
             ([Opt CHR ''c'' None] @ Unknown CHR ''t'' # [], [''demo.bag''])"
    by simp
  from check_mode_rejects [OF a b, of "[Opt CHR ''c'' None]" "CHR ''t''" "Some ''5''" "[]"
      0 demo_bags idle_world]
  have "main 0 [''rosplay'', ''-c'', ''-t'', ''5'', ''demo.bag''] demo_bags idle_world =
     Some (Exit 1,
           emit (Stderr (''Option -t is not valid when checking bag'' @ nl)) idle_world)"
    by simp
  moreover
  from check_mode_rejects [OF c d, of "[]" "CHR ''a''" None "[]" 0 demo_bags idle_world]
  have "main 0 [''rosplay'', ''-c'', ''demo.bag'', ''other.bag''] demo_bags idle_world =
     Some (Exit 1, emit (Stderr (''Only 1 bag can be checked at a time'' @ nl)) idle_world)"
    by simp
  moreover
  from check_mode_rejects [OF e f, of "[Opt CHR ''c'' None]" "CHR ''a''" None
      "[Opt CHR ''a'' None]" 0 demo_bags idle_world]
  have "main 0 [''rosplay'', ''-c'', ''-h'', ''-a'', ''demo.bag''] demo_bags idle_world =
     Some (Exit 0, print_help idle_world)"
    by simp
  moreover
  from check_mode_rejects [OF g h, of "[Opt CHR ''c'' None]" "CHR ''n''" None "[]"
      0 demo_bags idle_world]
  have "main 0 [''rosplay'', ''-c'', ''-n'', ''demo.bag''] demo_bags idle_world =
     Some (Exit 0, print_usage (emit (Getopt_diagnostic CHR ''n'') idle_world))"
    by simp
  moreover
  from check_mode_rejects [OF i j, of "[Opt CHR ''c'' None]" "CHR ''t''" None "[]"
      0 demo_bags idle_world]
  have "main 0 [''rosplay'', ''-c'', ''demo.bag'', ''-t''] demo_bags idle_world =
     Some (Exit 0, print_usage (emit (Getopt_diagnostic CHR ''t'') idle_world))"
    by simp
  ultimately show ?thesis
    by blast
qed

theorem check_mode_help_before_reject_counterexample:
  "map_option fst
     (main 0 [''rosplay'', ''-c'', ''-h'', ''-a'', ''demo.bag'', ''other.bag''] demo_bags idle_world)
     = Some (Exit 0)"
  by (simp add: main_def main_check_def)

subsection \<open>What the basic operations change\<close>

lemma emit_simps [simp]:
  "tty (emit ev w) = tty w" "keys (emit ev w) = keys w"
  "stdin_eof (emit ev w) = stdin_eof w" "sticky_eof (emit ev w) = sticky_eof w" "clock (emit ev w) = clock w"
  "node_ok (emit ev w) = node_ok w" "advertised (emit ev w) = advertised w"
  "log (emit ev w) = log w @ [ev]"
  by (simp_all add: emit_def)

lemma shutdown_simps [simp]:
  "tty (shutdown w) = tty w" "keys (shutdown w) = keys w"
  "stdin_eof (shutdown w) = stdin_eof w" "sticky_eof (shutdown w) = sticky_eof w" "clock (shutdown w) = clock w"
  "node_ok (shutdown w) = False" "advertised (shutdown w) = advertised w"
  "log (shutdown w) = log w @ [Node_shutdown]"
  by (simp_all add: shutdown_def)

lemma usleep_simps [simp]:
  "tty (usleep us w) = tty w" "keys (usleep us w) = keys w"
  "stdin_eof (usleep us w) = stdin_eof w" "sticky_eof (usleep us w) = sticky_eof w"
  "clock (usleep us w) = clock w + 1000 * uint us"
  "node_ok (usleep us w) = node_ok w" "advertised (usleep us w) = advertised w"
  "log (usleep us w) = log w @ [Usleep us]"
  by (simp_all add: usleep_def)

lemma publish_simps [simp]:
  "tty (publish n m w) = tty w" "keys (publish n m w) = keys w"
  "stdin_eof (publish n m w) = stdin_eof w" "sticky_eof (publish n m w) = sticky_eof w" "clock (publish n m w) = clock w"
  "node_ok (publish n m w) = node_ok w" "advertised (publish n m w) = advertised w"
  "log (publish n m w) = log w @ [Publish n m]"
  by (simp_all add: publish_def)

lemma print_usage_simps [simp]:
  "tty (print_usage w) = tty w" "keys (print_usage w) = keys w"
  "stdin_eof (print_usage w) = stdin_eof w" "sticky_eof (print_usage w) = sticky_eof w" "clock (print_usage w) = clock w"
  "node_ok (print_usage w) = node_ok w" "advertised (print_usage w) = advertised w"
  "log (print_usage w) = log w @ [Stderr (''USAGE: rosplay [options] BAG1 [BAG2]'' @ nl)]"
  by (simp_all add: print_usage_def)

lemma fold_emit_Stderr:
  "fold (\<lambda>l. emit (Stderr l)) ls w = w\<lparr>log := log w @ map Stderr ls\<rparr>"
  by (induction ls arbitrary: w) (simp_all add: emit_def)

lemma print_help_simps [simp]:
  "tty (print_help w) = tty w" "keys (print_help w) = keys w"
  "stdin_eof (print_help w) = stdin_eof w" "sticky_eof (print_help w) = sticky_eof w" "clock (print_help w) = clock w"
  "node_ok (print_help w) = node_ok w" "advertised (print_help w) = advertised w"
  "log (print_help w) =
     log w @ Stderr (''USAGE: rosplay [options] BAG1 [BAG2]'' @ nl) # map Stderr help_lines"
  by (simp_all add: print_help_def fold_emit_Stderr)

subsection \<open>The constructor's option loop\<close>

lemma ctor_case_frame:
  "ctor_case env c arg rp t w = (rp', t', w') \<Longrightarrow>
     tty w' = tty w \<and> keys w' = keys w \<and> clock w' = clock w \<and> advertised w' = advertised w
     \<and> orig_flags rp' = orig_flags rp \<and> handler_added rp' = handler_added rp
     \<and> (\<not> node_ok w \<longrightarrow> \<not> node_ok w')
     \<and> (bag_time rp \<or> c = CHR ''b'' \<longrightarrow> bag_time rp')
     \<and> (log w' = log w \<or> log w' = log w @ [Node_shutdown])"
  by (auto simp: ctor_case_def split: if_splits)

lemma ctor_options_frame:
  "ctor_options env opts rp t w = (ret, rp', t', w') \<Longrightarrow>
     tty w' = tty w \<and> keys w' = keys w \<and> clock w' = clock w \<and> advertised w' = advertised w
     \<and> orig_flags rp' = orig_flags rp \<and> handler_added rp' = handler_added rp
     \<and> (\<not> node_ok w \<longrightarrow> \<not> node_ok w') \<and> (ret \<longrightarrow> \<not> node_ok w')"
proof (induction opts arbitrary: rp t w)
  case Nil
  then show ?case by auto
next
  case (Cons r opts)
  show ?case
  proof (cases r)
    case (Unknown c)
    with Cons.prems show ?thesis by auto
  next
    case (Opt c arg)
    show ?thesis
    proof (cases "c = CHR ''h''")
      case True
      with Opt Cons.prems show ?thesis by auto
    next
      case False
      obtain rp1 t1 w1 where step: "ctor_case env c arg rp t w = (rp1, t1, w1)"
        by (cases "ctor_case env c arg rp t w") auto
      with False Opt Cons.prems have "ctor_options env opts rp1 t1 w1 = (ret, rp', t', w')"
        by simp
      from Cons.IH [OF this] ctor_case_frame [OF step] show ?thesis
        by simp
    qed
  qed
qed

lemma ctor_options_log:
  "ctor_options env opts rp t w = (ret, rp', t', w') \<Longrightarrow>
     \<exists>evs. log w' = log w @ evs \<and> (\<forall>ev \<in> set evs. \<not> player_event ev)
        \<and> (ret \<longrightarrow> Node_shutdown \<in> set evs \<and> (\<exists>s. Stderr s \<in> set evs))"
proof (induction opts arbitrary: rp t w)
  case Nil
  then show ?case by auto
next
  case (Cons r opts)
  show ?case
  proof (cases r)
    case (Unknown c)
    with Cons.prems show ?thesis by auto
  next
    case (Opt c arg)
    show ?thesis
    proof (cases "c = CHR ''h''")
      case True
      with Opt Cons.prems show ?thesis by auto
    next
      case False
      obtain rp1 t1 w1 where step: "ctor_case env c arg rp t w = (rp1, t1, w1)"
        by (cases "ctor_case env c arg rp t w") auto
      with False Opt Cons.prems have "ctor_options env opts rp1 t1 w1 = (ret, rp', t', w')"
        by simp
      from Cons.IH [OF this] obtain evs where
        evs: "log w' = log w1 @ evs" "\<forall>ev \<in> set evs. \<not> player_event ev"
          "ret \<longrightarrow> Node_shutdown \<in> set evs \<and> (\<exists>s. Stderr s \<in> set evs)"
        by blast
      from ctor_case_frame [OF step] have "log w1 = log w \<or> log w1 = log w @ [Node_shutdown]"
        by simp
      then show ?thesis
      proof
        assume "log w1 = log w"
        with evs show ?thesis by auto
      next
        assume "log w1 = log w @ [Node_shutdown]"
        with evs have "log w' = log w @ (Node_shutdown # evs)"
          "\<forall>ev \<in> set (Node_shutdown # evs). \<not> player_event ev"
          "ret \<longrightarrow> Node_shutdown \<in> set (Node_shutdown # evs)
                \<and> (\<exists>s. Stderr s \<in> set (Node_shutdown # evs))"
          by auto
        then show ?thesis by blast
      qed
    qed
  qed
qed

lemma ctor_options_bag_time:
  "ctor_options env opts rp t w = (False, rp', t', w') \<Longrightarrow>
     bag_time rp \<or> (\<exists>arg. Opt CHR ''b'' arg \<in> set opts) \<Longrightarrow> bag_time rp'"
proof (induction opts arbitrary: rp t w)
  case Nil
  then show ?case by auto
next
  case (Cons r opts)
  show ?case
  proof (cases r)
    case (Unknown c)
    with Cons.prems show ?thesis by auto
  next
    case (Opt c arg)
    show ?thesis
    proof (cases "c = CHR ''h''")
      case True
      with Opt Cons.prems show ?thesis by auto
    next
      case False
      obtain rp1 t1 w1 where step: "ctor_case env c arg rp t w = (rp1, t1, w1)"
        by (cases "ctor_case env c arg rp t w") auto
      with False Opt Cons.prems have rec: "ctor_options env opts rp1 t1 w1 = (False, rp', t', w')"
        by simp
      from Cons.prems(2) Opt ctor_case_frame [OF step]
      have "bag_time rp1 \<or> (\<exists>arg. Opt CHR ''b'' arg \<in> set opts)"
        by auto
      with Cons.IH [OF rec] show ?thesis
        by simp
    qed
  qed
qed

lemma ctor_options_no_stop:
  "\<forall>r \<in> set opts. (\<forall>c. r \<noteq> Unknown c) \<and> (\<forall>arg. r \<noteq> Opt CHR ''h'' arg) \<Longrightarrow>
   \<not> fst (ctor_options env opts rp t w)"
proof (induction opts arbitrary: rp t w)
  case Nil
  then show ?case by auto
next
  case (Cons r opts)
  show ?case
  proof (cases r)
    case (Unknown c)
    with Cons.prems show ?thesis by auto
  next
    case (Opt c arg)
    with Cons.prems have "c \<noteq> CHR ''h''" by auto
    with Opt Cons show ?thesis
      by (auto split: prod.splits)
  qed
qed

subsection \<open>What playing leaves alone\<close>

lemma unchanged_refl [simp]: "unchanged rp w rp w"
  by (simp add: unchanged_def)

lemma unchanged_trans:
  "unchanged rp w rp1 w1 \<Longrightarrow> unchanged rp1 w1 rp2 w2 \<Longrightarrow> unchanged rp w rp2 w2"
  by (simp add: unchanged_def)

lemma getchar_frame:
  "getchar w = (c, w1) \<Longrightarrow>
     tty w1 = tty w \<and> node_ok w1 = node_ok w \<and> log w1 = log w \<and> clock w1 = clock w
     \<and> advertised w1 = advertised w \<and> sticky_eof w1 = sticky_eof w"
  by (auto simp: getchar_def split: list.splits option.splits if_splits)

lemma bag_time_call_simps [simp]:
  "tty (bag_time_call rp ev w) = tty w" "keys (bag_time_call rp ev w) = keys w"
  "stdin_eof (bag_time_call rp ev w) = stdin_eof w"
  "sticky_eof (bag_time_call rp ev w) = sticky_eof w"
  "clock (bag_time_call rp ev w) = clock w" "node_ok (bag_time_call rp ev w) = node_ok w"
  "advertised (bag_time_call rp ev w) = advertised w"
  by (simp_all add: bag_time_call_def)

lemma advertise_frame:
  "advertise n q w = (fresh, w1) \<Longrightarrow>
     tty w1 = tty w \<and> node_ok w1 = node_ok w \<and> keys w1 = keys w \<and> clock w1 = clock w
     \<and> stdin_eof w1 = stdin_eof w \<and> sticky_eof w1 = sticky_eof w
     \<and> log w1 = log w @ [Advertise n q]"
  by (auto simp: advertise_def)

lemma toggle_pause_frame:
  "toggle_pause rp e pt w = (rp1, pt1, w1) \<Longrightarrow>
     unchanged rp w rp1 w1 \<and> keys w1 = keys w \<and> stdin_eof w1 = stdin_eof w
     \<and> paused rp1 = (\<not> paused rp)"
  by (auto simp: toggle_pause_def unchanged_def Let_def split: if_splits)

lemma announce_frame:
  assumes "announce rp e w = (rp1, w1)"
  shows "unchanged rp w rp1 w1 \<and> keys w1 = keys w \<and> stdin_eof w1 = stdin_eof w
     \<and> paused rp1 = paused rp \<and> clock w \<le> clock w1"
proof -
  let ?w1 = "if bag_time rp \<and> \<not> bag_time_initialized rp
             then (if paused rp then emit (Step_time (record_time e)) w
                   else emit (Start_time (record_time e)) w)
             else w"
  let ?rp1 = "if bag_time rp then rp\<lparr>bag_time_initialized := True\<rparr> else rp"
  let ?w2 = "if bag_time rp
             then (if at_once rp then emit (Start_time (record_time e)) ?w1
                   else emit (Set_horizon (play_time e)) ?w1)
             else ?w1"
  obtain fresh w3 where a: "advertise (topic e) (queue_size ?rp1) ?w2 = (fresh, w3)"
    by (cases "advertise (topic e) (queue_size ?rp1) ?w2") auto
  have w2: "tty ?w2 = tty w" "node_ok ?w2 = node_ok w" "keys ?w2 = keys w"
    "clock ?w2 = clock w" "stdin_eof ?w2 = stdin_eof w" "sticky_eof ?w2 = sticky_eof w"
    by simp_all
  from advertise_frame [OF a] w2
  have w3: "tty w3 = tty w" "node_ok w3 = node_ok w" "keys w3 = keys w"
    "clock w3 = clock w" "stdin_eof w3 = stdin_eof w" "sticky_eof w3 = sticky_eof w"
    by simp_all
  have rp1: "unchanged rp w ?rp1 w" "paused ?rp1 = paused rp"
    by (simp_all add: unchanged_def)
  have r: "rp1 = fst (announce rp e w)" "w1 = snd (announce rp e w)"
    using assms by simp_all
  show ?thesis
  proof (cases fresh)
    case False
    with a have eq: "announce rp e w = (?rp1, w3)"
      by (simp add: announce_def Let_def)
    show ?thesis
      unfolding r eq using w3 rp1 by (simp add: unchanged_def)
  next
    case True
    let ?w4 = "bag_time_call ?rp1 Freeze_time w3"
    let ?w5 = "usleep (advertise_sleep ?rp1) ?w4"
    let ?w7 = "bag_time_call ?rp1 (Start_time (record_time e))
                 (emit (Shift_time (getSysTime ?w5 - getSysTime ?w4)) ?w5)"
    from a True have eq: "announce rp e w = (?rp1, ?w7)"
      by (simp add: announce_def Let_def)
    show ?thesis
      unfolding r eq using w3 rp1 by (simp add: unchanged_def)
  qed
qed

lemma key_loop_frame:
  "key_loop n rp e pt w = x \<Longrightarrow>
     (case x of Stepped rp' w' \<Rightarrow> unchanged rp w rp' w'
      | Left rp' pt' w' \<Rightarrow> unchanged rp w rp' w'
      | Key_cut rp' pt' w' \<Rightarrow> unchanged rp w rp' w')"
proof (induction n arbitrary: rp pt w)
  case 0
  then show ?case by auto
next
  case (Suc n)
  show ?case
  proof (cases "node_ok w")
    case False
    with Suc.prems show ?thesis by auto
  next
    case ok: True
    obtain c w1 where g: "getchar w = (c, w1)" by (cases "getchar w") auto
    from getchar_frame [OF g] have u0: "unchanged rp w rp w1"
      by (simp add: unchanged_def)
    consider (space) "c = Some CHR '' ''" | (step) "c = Some CHR ''s''"
      | (eof) "c \<noteq> Some CHR '' ''" "c \<noteq> Some CHR ''s''" "is_EOF c"
      | (other) "c \<noteq> Some CHR '' ''" "c \<noteq> Some CHR ''s''" "\<not> is_EOF c"
      by blast
    then show ?thesis
    proof cases
      case space
      obtain rp1 pt1 w2 where t: "toggle_pause rp e pt w1 = (rp1, pt1, w2)"
        by (cases "toggle_pause rp e pt w1") auto
      with Suc.prems ok g space have "key_loop n rp1 e pt1 w2 = x"
        by simp
      from Suc.IH [OF this] toggle_pause_frame [OF t] u0 show ?thesis
        by (cases x) (auto simp: unchanged_def)
    next
      case step
      show ?thesis
      proof (cases "paused rp")
        case True
        with Suc.prems ok g step u0 show ?thesis
          by (auto simp: unchanged_def)
      next
        case False
        with Suc.prems ok g step have "key_loop n rp e pt w1 = x"
          by simp
        from Suc.IH [OF this] u0 show ?thesis
          by (cases x) (auto simp: unchanged_def)
      qed
    next
      case eof
      show ?thesis
      proof (cases "paused rp")
        case True
        with Suc.prems ok g eof have "key_loop n rp e pt (usleep 10000 w1) = x"
          by simp
        from Suc.IH [OF this] u0 show ?thesis
          by (cases x) (auto simp: unchanged_def)
      next
        case False
        with Suc.prems ok g eof u0 show ?thesis
          by (auto simp: unchanged_def)
      qed
    next
      case other
      with Suc.prems ok g have "key_loop n rp e pt w1 = x"
        by simp
      from Suc.IH [OF this] u0 show ?thesis
        by (cases x) (auto simp: unchanged_def)
    qed
  qed
qed

lemma wait_loop_frame:
  "wait_loop n rp e pt delta w = x \<Longrightarrow>
     (case x of Returned rp' w' \<Rightarrow> unchanged rp w rp' w'
      | Waited rp' delta' w' \<Rightarrow> unchanged rp w rp' w'
      | Wait_cut rp' w' \<Rightarrow> unchanged rp w rp' w')"
proof (induction n arbitrary: rp pt delta w)
  case 0
  then show ?case by auto
next
  case (Suc n)
  show ?case
  proof (cases "(paused rp \<or> 100000 < delta) \<and> node_ok w")
    case False
    with Suc.prems show ?thesis by auto
  next
    case True
    note k = key_loop_frame [of n rp e pt w "key_loop n rp e pt w"]
    show ?thesis
    proof (cases "key_loop n rp e pt w")
      case (Stepped rp1 w1)
      with Suc.prems True k show ?thesis
        by auto
    next
      case (Key_cut rp1 pt1 w1)
      with Suc.prems True k show ?thesis
        by auto
    next
      case (Left rp1 pt1 w1)
      with Suc.prems True
      have "wait_loop n rp1 e pt1 (pt1 - getSysTime (usleep 100000 w1)) (usleep 100000 w1) = x"
        by (simp add: Let_def)
      from Suc.IH [OF this] k Left show ?thesis
        by (cases x) (auto simp: unchanged_def)
    qed
  qed
qed

lemma doPublish_frame:
  assumes "doPublish fuel rp e w = x"
  shows "case x of Ended rp' w' \<Rightarrow> unchanged rp w rp' w' | Cut rp' w' \<Rightarrow> unchanged rp w rp' w'"
proof (cases "play_time e < requested_start_time rp")
  case True
  with assms show ?thesis by (auto simp: doPublish_def)
next
  case False
  obtain rp1 w1 where a: "announce rp e w = (rp1, w1)"
    by (cases "announce rp e w") auto
  from announce_frame [OF a] have u1: "unchanged rp w rp1 w1" by simp
  show ?thesis
  proof (cases "at_once rp1")
    case True
    with assms False a u1 show ?thesis
      by (auto simp: doPublish_def unchanged_def)
  next
    case no: False
    let ?y = "wait_loop fuel rp1 e (play_time e) (play_time e - getSysTime w1) w1"
    note f = wait_loop_frame [of fuel rp1 e "play_time e" "play_time e - getSysTime w1" w1 ?y]
    show ?thesis
    proof (cases ?y)
      case (Returned rp2 w2)
      with assms False a no f u1 show ?thesis
        by (auto simp: doPublish_def unchanged_def)
    next
      case (Wait_cut rp2 w2)
      with assms False a no f u1 show ?thesis
        by (auto simp: doPublish_def unchanged_def)
    next
      case (Waited rp2 delta w2)
      with assms False a no f u1 show ?thesis
        by (auto simp: doPublish_def unchanged_def Let_def)
    qed
  qed
qed

lemma doPublish_Ended_frame:
  "doPublish fuel rp e w = Ended rp' w' \<Longrightarrow> unchanged rp w rp' w'"
  by (drule doPublish_frame) simp

lemma spin_loop_frame:
  "spin_loop fuel rp es w = x \<Longrightarrow>
     (case x of Ended rp' w' \<Rightarrow> unchanged rp w rp' w' | Cut rp' w' \<Rightarrow> unchanged rp w rp' w')"
proof (induction es arbitrary: rp w)
  case Nil
  then show ?case by auto
next
  case (Cons e es)
  show ?case
  proof (cases "node_ok w \<and> handler_added rp")
    case False
    with Cons show ?thesis
      by (auto split: if_splits)
  next
    case True
    note d = doPublish_frame [of fuel rp e w "doPublish fuel rp e w"]
    show ?thesis
    proof (cases "doPublish fuel rp e w")
      case (Cut rp1 w1)
      with True Cons.prems d show ?thesis
        by auto
    next
      case (Ended rp1 w1)
      with True Cons.prems have "spin_loop fuel rp1 es w1 = x"
        by simp
      from Cons.IH [OF this] d Ended show ?thesis
        by (cases x) (auto intro: unchanged_trans)
    qed
  qed
qed

lemma spin_frame:
  "spin fuel rp es w = Some (rp', w') \<Longrightarrow> unchanged rp w rp' w'"
proof (cases "node_ok w")
  case False
  moreover assume "spin fuel rp es w = Some (rp', w')"
  ultimately show ?thesis
    by (simp add: spin_def)
next
  case True
  assume s: "spin fuel rp es w = Some (rp', w')"
  with True have "spin_loop fuel rp es w = Ended rp' w'"
    by (cases "spin_loop fuel rp es w") (simp_all add: spin_def)
  from spin_loop_frame [OF this] show ?thesis
    by simp
qed

lemma spin_loop_no_handler:
  "\<not> handler_added rp \<Longrightarrow> spin_loop fuel rp es w = Ended rp w"
  by (induction es) auto

lemma spin_not_ok: "\<not> node_ok w \<Longrightarrow> spin fuel rp es w = Some (rp, w)"
  by (simp add: spin_def)

lemma doPublish_at_once:
  assumes "at_once rp"
  shows "\<exists>rp' w'. doPublish fuel rp e w = Ended rp' w'"
proof -
  obtain rp1 w1 where a: "announce rp e w = (rp1, w1)"
    by (cases "announce rp e w") auto
  from announce_frame [OF a] assms have "at_once rp1"
    by (simp add: unchanged_def)
  with a show ?thesis
    by (simp add: doPublish_def)
qed

lemma spin_loop_at_once:
  "at_once rp \<Longrightarrow> \<exists>rp' w'. spin_loop fuel rp es w = Ended rp' w'"
proof (induction es arbitrary: rp w)
  case Nil
  then show ?case by simp
next
  case (Cons e es)
  from doPublish_at_once [OF Cons.prems, of fuel e w] obtain rp1 w1 where
    d: "doPublish fuel rp e w = Ended rp1 w1"
    by blast
  from doPublish_Ended_frame [OF d] Cons.prems have "at_once rp1"
    by (simp add: unchanged_def)
  from Cons.IH [OF this, of w1] Cons.IH [OF Cons.prems, of w] d show ?case
    by auto
qed

lemma spin_at_once:
  "at_once rp \<Longrightarrow> \<exists>rp' w'. spin fuel rp es w = Some (rp', w')"
  using spin_loop_at_once [of rp fuel es w] by (auto simp: spin_def)

subsection \<open>The terminal\<close>

lemma canon_cleared: "(x AND NOT ICANON) AND ICANON = 0"
  by (simp add: and.assoc)

lemma other_bits_kept: "(x AND NOT ICANON) AND NOT ICANON = x AND NOT ICANON"
  by (simp add: and.assoc)

lemma echo_mask: "NOT ICANON AND ECHO = ECHO"
  by (simp add: ICANON_def ECHO_def)

lemma echo_kept: "(x AND NOT ICANON) AND ECHO = x AND ECHO"
  by (simp add: and.assoc echo_mask)

lemma ctor_open_frame:
  "ctor_open env rest rp t w = (rp', w') \<Longrightarrow>
     tty w' = tty w \<and> orig_flags rp' = orig_flags rp
     \<and> (\<not> node_ok w \<longrightarrow> \<not> node_ok w')
     \<and> (handler_added rp' \<longrightarrow> handler_added rp \<or> open_ok env rest)
     \<and> (rest = [] \<or> bag_time rp \<and> 1 < length rest \<longrightarrow> \<not> node_ok w')"
  by (auto simp: ctor_open_def Let_def split: if_splits)

lemma RosPlay_ctor_frame:
  assumes "RosPlay_ctor argv env w = (rp, w1)"
  shows "orig_flags rp = tty w \<and> tty w1 = raw_flags (tty w)
    \<and> (handler_added rp \<longrightarrow> open_ok env (snd (getopt_scan ''ncahpb:r:s:t:q:'' (tl argv))))
    \<and> (snd (getopt_scan ''ncahpb:r:s:t:q:'' (tl argv)) = [] \<longrightarrow> \<not> node_ok w1)"
proof -
  obtain opts rest where sc: "getopt_scan ''ncahpb:r:s:t:q:'' (tl argv) = (opts, rest)"
    by (cases "getopt_scan ''ncahpb:r:s:t:q:'' (tl argv)") auto
  let ?w0 = "w\<lparr>tty := raw_flags (tty w)\<rparr>"
  obtain ret rp1 t1 w2 where
    co: "ctor_options env opts (rosplay0 (tty w)) None ?w0 = (ret, rp1, t1, w2)"
    by (cases "ctor_options env opts (rosplay0 (tty w)) None ?w0") auto
  note f = ctor_options_frame [OF co]
  have init: "orig_flags (rosplay0 (tty w)) = tty w" "\<not> handler_added (rosplay0 (tty w))"
    by (simp_all add: rosplay0_def)
  show ?thesis
  proof (cases ret)
    case True
    with assms sc co init have "rp = rp1" "w1 = w2"
      by (simp_all add: RosPlay_ctor_def Let_def)
    with f init True sc show ?thesis
      by simp
  next
    case False
    with assms sc co init have o: "ctor_open env rest rp1 t1 w2 = (rp, w1)"
      by (simp add: RosPlay_ctor_def Let_def)
    from ctor_open_frame [OF o] f init sc show ?thesis
      by simp
  qed
qed
text \<open>
  C6, as the code has it. The constructor saves the terminal settings of \<open>stdin\<close> in
  \<open>orig_flags_\<close> and installs a copy in which \<open>ICANON\<close> is cleared and \<open>VMIN\<close> and \<open>VTIME\<close>
  are 0: input is non-canonical and a read does not block. Every other bit of \<open>c_lflag\<close>
  is as it was, \<open>ECHO\<close> among them, and so are all other control characters, flags and
  speeds. \<open>spin\<close> leaves the terminal as the constructor set it, and the destructor
  restores exactly the settings saved at construction; a whole run of \<open>main\<close> in play mode
  therefore ends with the terminal as it found it.
\<close>

theorem terminal_noncanonical_then_restored:
  assumes "RosPlay_ctor argv env w = (rp, w1)"
  shows "orig_flags rp = tty w
       \<and> c_lflag (tty w1) AND ICANON = 0
       \<and> c_cc (tty w1) VMIN = 0 \<and> c_cc (tty w1) VTIME = 0
       \<and> c_lflag (tty w1) AND NOT ICANON = c_lflag (tty w) AND NOT ICANON
       \<and> c_lflag (tty w1) AND ECHO = c_lflag (tty w) AND ECHO
       \<and> (\<forall>i. i \<noteq> VMIN \<and> i \<noteq> VTIME \<longrightarrow> c_cc (tty w1) i = c_cc (tty w) i)
       \<and> c_iflag (tty w1) = c_iflag (tty w) \<and> c_oflag (tty w1) = c_oflag (tty w)
       \<and> c_cflag (tty w1) = c_cflag (tty w) \<and> c_line (tty w1) = c_line (tty w)
       \<and> c_ispeed (tty w1) = c_ispeed (tty w) \<and> c_ospeed (tty w1) = c_ospeed (tty w)
       \<and> (spin fuel rp es w1 = Some (rp2, w2) \<longrightarrow>
            tty w2 = tty w1 \<and> tty (RosPlay_dtor rp2 (usleep 1000000 w2)) = tty w)
       \<and> (''-c'' \<notin> set argv \<and> main fuel argv env w = Some (x, w') \<longrightarrow> tty w' = tty w)"
proof -
  from RosPlay_ctor_frame [OF assms]
  have o: "orig_flags rp = tty w" and r: "tty w1 = raw_flags (tty w)"
    by simp_all
  have spin: "tty w2 = tty w1 \<and> tty (RosPlay_dtor rp2 (usleep 1000000 w2)) = tty w"
    if "spin fuel rp es w1 = Some (rp2, w2)"
    using spin_frame [OF that] o by (simp add: unchanged_def RosPlay_dtor_def)
  have whole: "tty w' = tty w" if "''-c'' \<notin> set argv" and "main fuel argv env w = Some (x, w')"
  proof -
    let ?w0 = "emit Node_created (w\<lparr>node_ok := True\<rparr>)"
    let ?es = "feed env (snd (getopt_scan ''ncahpb:r:s:t:q:'' (tl argv)))"
    obtain rp0 w0 where c: "RosPlay_ctor argv env ?w0 = (rp0, w0)"
      by (cases "RosPlay_ctor argv env ?w0") auto
    with that obtain rp3 w3 where s: "spin fuel rp0 ?es w0 = Some (rp3, w3)"
      and w': "w' = RosPlay_dtor rp3 (usleep 1000000 w3)"
      by (cases "spin fuel rp0 ?es w0") (auto simp: main_def Let_def)
    from RosPlay_ctor_frame [OF c] have "orig_flags rp0 = tty w"
      by simp
    with spin_frame [OF s] w' show ?thesis
      by (simp add: unchanged_def RosPlay_dtor_def)
  qed
  from o r spin whole show ?thesis
    by (simp add: raw_flags_def canon_cleared other_bits_kept echo_kept VMIN_def VTIME_def)
qed

theorem terminal_noncanonical_then_restored_witness:
  "orig_flags (fst (RosPlay_ctor [''rosplay'', ''-a'', ''demo.bag''] demo_bags playing_world))
     = cooked_tty
   \<and> c_lflag (tty (snd (RosPlay_ctor [''rosplay'', ''-a'', ''demo.bag''] demo_bags playing_world)))
       AND ICANON = 0
   \<and> c_cc (tty (snd (RosPlay_ctor [''rosplay'', ''-a'', ''demo.bag''] demo_bags playing_world)))
       VMIN = 0
   \<and> (\<exists>rp2 w2. spin 0 (fst (RosPlay_ctor [''rosplay'', ''-a'', ''demo.bag''] demo_bags playing_world))
                   demo_feed
                   (snd (RosPlay_ctor [''rosplay'', ''-a'', ''demo.bag''] demo_bags playing_world))
                 = Some (rp2, w2)
          \<and> c_lflag (tty w2) AND ICANON = 0
          \<and> tty (RosPlay_dtor rp2 (usleep 1000000 w2)) = cooked_tty)
   \<and> (\<exists>w'. main 0 [''rosplay'', ''-a'', ''demo.bag''] demo_bags idle_world = Some (Exit 0, w')
          \<and> tty w' = cooked_tty)"
proof -
  let ?argv = "[''rosplay'', ''-a'', ''demo.bag'']"
  obtain rp w1 where c: "RosPlay_ctor ?argv demo_bags playing_world = (rp, w1)"
    by (cases "RosPlay_ctor ?argv demo_bags playing_world") auto
  have t: "tty idle_world = cooked_tty" "tty playing_world = cooked_tty"
    by (simp_all add: playing_world_def idle_world_def)
  have "at_once (fst (RosPlay_ctor ?argv demo_bags playing_world))"
    by (simp add: RosPlay_ctor_def ctor_case_def ctor_open_def Let_def rosplay0_def)
  with c have "at_once rp"
    by simp
  from spin_at_once [OF this, of 0 demo_feed w1]
  obtain rp2 w2 where s: "spin 0 rp demo_feed w1 = Some (rp2, w2)"
    by blast
  have "\<exists>w'. main 0 ?argv demo_bags idle_world = Some (Exit 0, w')"
    by (simp add: main_def RosPlay_ctor_def ctor_case_def ctor_open_def Let_def spin_def
          doPublish_def announce_def advertise_def bag_time_call_def rosplay0_def
          demo_bags_def demo_feed_def idle_world_def getSysTime_def optarg_def)
  then obtain w' where m: "main 0 ?argv demo_bags idle_world = Some (Exit 0, w')"
    by blast
  from terminal_noncanonical_then_restored [OF c, of 0 demo_feed rp2 w2] s t
  have "orig_flags rp = cooked_tty \<and> c_lflag (tty w1) AND ICANON = 0 \<and> c_cc (tty w1) VMIN = 0
      \<and> c_lflag (tty w2) AND ICANON = 0
      \<and> tty (RosPlay_dtor rp2 (usleep 1000000 w2)) = cooked_tty"
    by simp
  moreover
  obtain rp0 w0 where c0: "RosPlay_ctor ?argv demo_bags idle_world = (rp0, w0)"
    by (cases "RosPlay_ctor ?argv demo_bags idle_world") auto
  from terminal_noncanonical_then_restored [OF c0, of 0 "[]" rp0 w0 "Exit 0" w'] m t
  have "tty w' = cooked_tty"
    by simp
  ultimately show ?thesis
    using c s m by auto
qed

theorem echo_left_on_counterexample:
  "c_lflag (tty (snd (RosPlay_ctor [''rosplay'', ''demo.bag''] demo_bags idle_world))) AND ECHO
     \<noteq> 0"
proof -
  obtain rp w1 where c: "RosPlay_ctor [''rosplay'', ''demo.bag''] demo_bags idle_world = (rp, w1)"
    by (cases "RosPlay_ctor [''rosplay'', ''demo.bag''] demo_bags idle_world") auto
  from RosPlay_ctor_frame [OF c] have "tty w1 = raw_flags (tty idle_world)"
    by simp
  with c show ?thesis
    by (simp add: raw_flags_def idle_world_def cooked_tty_def ICANON_def ECHO_def)
qed

subsection \<open>Bag time and several bags\<close>

lemma rosplay0_orig_flags [simp]: "orig_flags (rosplay0 t) = t"
  by (simp add: rosplay0_def)

lemma ctor_open_bag_time_many:
  "bag_time rp \<Longrightarrow> 1 < length rest \<Longrightarrow>
   ctor_open env rest rp t w =
     (rp, shutdown (print_usage
            (emit (Stderr (''You can only play one single bag when using bag time [-b].'' @ nl)) w)))"
  by (auto simp: ctor_open_def Let_def)

text \<open>
  C10. A run of \<open>rosplay\<close> that is not in check mode, has \<open>-b\<close> among its options and
  more than one bag, ends with exit code 0 and the node shut down, after printing on the
  standard error; it opens no bag, adds no handler, advertises and publishes nothing.
  Unless \<open>-h\<close> or an unrecognised option ended the option loop first (the help or the
  usage is printed then), the line printed is
  \<open>You can only play one single bag when using bag time [-b].\<close>
\<close>

theorem bag_time_with_several_bags:
  assumes "''-c'' \<notin> set argv"
    and "getopt_scan ''ncahpb:r:s:t:q:'' (tl argv) = (opts, rest)"
    and "Opt CHR ''b'' arg \<in> set opts"
    and "1 < length rest"
  shows "\<exists>w' evs. main fuel argv env w = Some (Exit 0, w') \<and> \<not> node_ok w'
           \<and> log w' = log w @ evs
           \<and> Node_shutdown \<in> set evs \<and> (\<exists>s. Stderr s \<in> set evs)
           \<and> (\<forall>ev \<in> set evs. \<not> player_event ev)
           \<and> ((\<forall>r \<in> set opts. (\<forall>c. r \<noteq> Unknown c) \<and> (\<forall>a. r \<noteq> Opt CHR ''h'' a)) \<longrightarrow>
                Stderr (''You can only play one single bag when using bag time [-b].'' @ nl)
                  \<in> set evs)"
proof -
  let ?msg = "Stderr (''You can only play one single bag when using bag time [-b].'' @ nl)"
  let ?usage = "Stderr (''USAGE: rosplay [options] BAG1 [BAG2]'' @ nl)"
  let ?w0 = "emit Node_created (w\<lparr>node_ok := True\<rparr>)"
  let ?w1 = "?w0\<lparr>tty := raw_flags (tty ?w0)\<rparr>"
  obtain ret rp1 t1 w2 where
    co: "ctor_options env opts (rosplay0 (tty ?w0)) None ?w1 = (ret, rp1, t1, w2)"
    by (cases "ctor_options env opts (rosplay0 (tty ?w0)) None ?w1") auto
  from ctor_options_log [OF co] obtain evs1 where
    evs1: "log w2 = log ?w1 @ evs1" "\<forall>ev \<in> set evs1. \<not> player_event ev"
      "ret \<longrightarrow> Node_shutdown \<in> set evs1 \<and> (\<exists>s. Stderr s \<in> set evs1)"
    by blast
  have l1: "log ?w1 = log w @ [Node_created]"
    by simp
  show ?thesis
  proof (cases ret)
    case True
    with assms(2) co have c: "RosPlay_ctor argv env ?w0 = (rp1, w2)"
      by (simp add: RosPlay_ctor_def Let_def)
    from ctor_options_frame [OF co] True have nok: "\<not> node_ok w2"
      by simp
    with assms(1) c have m: "main fuel argv env w =
        Some (Exit 0, RosPlay_dtor rp1 (usleep 1000000 w2))"
      by (simp add: main_def Let_def spin_not_ok)
    let ?evs = "Node_created # evs1 @ [Usleep 1000000]"
    have "log (RosPlay_dtor rp1 (usleep 1000000 w2)) = log w @ ?evs"
      using evs1(1) l1 by (simp add: RosPlay_dtor_def)
    moreover have "\<not> node_ok (RosPlay_dtor rp1 (usleep 1000000 w2))"
      using nok by (simp add: RosPlay_dtor_def)
    moreover have "Node_shutdown \<in> set ?evs" "\<exists>s. Stderr s \<in> set ?evs"
      using evs1(3) True by auto
    moreover have "\<forall>ev \<in> set ?evs. \<not> player_event ev"
      using evs1(2) by auto
    moreover have "\<not> (\<forall>r \<in> set opts. (\<forall>c. r \<noteq> Unknown c) \<and> (\<forall>a. r \<noteq> Opt CHR ''h'' a))"
      using ctor_options_no_stop [of opts env "rosplay0 (tty ?w0)" None ?w1] co True
      by auto
    ultimately show ?thesis
      using m by blast
  next
    case False
    with co assms(3) have bt: "bag_time rp1"
      by (auto dest: ctor_options_bag_time)
    let ?w3 = "shutdown (print_usage (emit ?msg w2))"
    from False assms(2) co ctor_open_bag_time_many [OF bt assms(4)]
    have c: "RosPlay_ctor argv env ?w0 = (rp1, ?w3)"
      by (simp add: RosPlay_ctor_def Let_def)
    with assms(1) have m: "main fuel argv env w =
        Some (Exit 0, RosPlay_dtor rp1 (usleep 1000000 ?w3))"
      by (simp add: main_def Let_def spin_not_ok)
    let ?evs = "Node_created # evs1 @ [?msg, ?usage, Node_shutdown, Usleep 1000000]"
    have "log (RosPlay_dtor rp1 (usleep 1000000 ?w3)) = log w @ ?evs"
      using evs1(1) l1 by (simp add: RosPlay_dtor_def)
    moreover have "\<not> node_ok (RosPlay_dtor rp1 (usleep 1000000 ?w3))"
      by (simp add: RosPlay_dtor_def)
    moreover have "Node_shutdown \<in> set ?evs" "\<exists>s. Stderr s \<in> set ?evs" "?msg \<in> set ?evs"
      by auto
    moreover have "\<forall>ev \<in> set ?evs. \<not> player_event ev"
      using evs1(2) by auto
    ultimately show ?thesis
      using m by blast
  qed
qed

theorem bag_time_with_several_bags_witness:
  "\<exists>w' evs. main 0 [''rosplay'', ''-b'', ''10'', ''demo.bag'', ''other.bag''] demo_bags idle_world
               = Some (Exit 0, w')
     \<and> \<not> node_ok w' \<and> log w' = log idle_world @ evs
     \<and> Stderr (''You can only play one single bag when using bag time [-b].'' @ nl) \<in> set evs
     \<and> list_all (\<lambda>ev. \<not> player_event ev) evs"
proof -
  let ?argv = "[''rosplay'', ''-b'', ''10'', ''demo.bag'', ''other.bag'']"
  have a: "''-c'' \<notin> set ?argv"
    by simp
  have b: "getopt_scan ''ncahpb:r:s:t:q:'' (tl ?argv)
             = ([Opt CHR ''b'' (Some ''10'')], [''demo.bag'', ''other.bag''])"
    by simp
  have c: "Opt CHR ''b'' (Some ''10'') \<in> set [Opt CHR ''b'' (Some ''10'')]"
    by simp
  have d: "1 < length [''demo.bag'', ''other.bag'']"
    by simp
  from bag_time_with_several_bags [OF a b c d, of 0 demo_bags idle_world]
  show ?thesis
    by (auto simp: list_all_iff)
qed

subsection \<open>Exit codes\<close>

lemma cluster_in_optstring:
  "cluster optstring cs next = (rs, used) \<Longrightarrow> Opt c a \<in> set rs \<Longrightarrow>
     opt_lookup optstring c \<noteq> None"
proof (induction cs arbitrary: rs used)
  case Nil
  then show ?case by simp
next
  case (Cons x cs)
  obtain rs' used' where r: "cluster optstring cs next = (rs', used')"
    by (cases "cluster optstring cs next") auto
  show ?case
  proof (cases "opt_lookup optstring x")
    case None
    with Cons.prems r have "Opt c a \<in> set rs'"
      by auto
    with Cons.IH [OF r] show ?thesis .
  next
    case (Some takes)
    show ?thesis
    proof (cases takes)
      case False
      with Some Cons.prems r have "c = x \<or> Opt c a \<in> set rs'"
        by auto
      with Cons.IH [OF r] Some show ?thesis
        by auto
    next
      case True
      with Some Cons.prems have "c = x"
        by (auto split: if_splits option.splits)
      with Some show ?thesis
        by simp
    qed
  qed
qed

lemma getopt_scan_in_optstring:
  "getopt_scan optstring args = (opts, rest) \<Longrightarrow> Opt c a \<in> set opts \<Longrightarrow>
     opt_lookup optstring c \<noteq> None"
proof (induction optstring args arbitrary: opts rest rule: getopt_scan.induct)
  case (1 optstring)
  then show ?case by simp
next
  case (2 optstring x xs)
  show ?case
  proof (cases "x = ''--''")
    case True
    with "2.prems" show ?thesis by simp
  next
    case dd: False
    show ?thesis
    proof (cases "2 \<le> length x \<and> hd x = CHR ''-''")
      case False
      obtain rs r where s: "getopt_scan optstring xs = (rs, r)"
        by (cases "getopt_scan optstring xs") auto
      with dd False "2.prems" have "Opt c a \<in> set rs"
        by auto
      with "2.IH"(2) [OF dd False s] show ?thesis .
    next
      case True
      let ?next = "case xs of [] \<Rightarrow> None | b # _ \<Rightarrow> Some b"
      obtain rs used where cl: "cluster optstring (tl x) ?next = (rs, used)"
        by (cases "cluster optstring (tl x) ?next") auto
      obtain rs' r where s: "getopt_scan optstring (if used then tl xs else xs) = (rs', r)"
        by (cases "getopt_scan optstring (if used then tl xs else xs)") auto
      from dd True cl s "2.prems" have "Opt c a \<in> set rs \<or> Opt c a \<in> set rs'"
        by auto
      then show ?thesis
      proof
        assume "Opt c a \<in> set rs"
        with cluster_in_optstring [OF cl] show ?thesis .
      next
        assume "Opt c a \<in> set rs'"
        with "2.IH"(1) [OF dd True cl [symmetric] s] show ?thesis .
      qed
    qed
  qed
qed

lemma check_optstring_letters:
  "opt_lookup ''cahpt:q:'' c \<noteq> None \<Longrightarrow>
     c \<in> {CHR ''c'', CHR ''a'', CHR ''h'', CHR ''p'', CHR ''t'', CHR ''q''}"
  by (simp split: if_splits)

lemma check_options_dropWhile:
  "check_options opts w = check_options (dropWhile is_dash_c opts) w"
proof (induction opts)
  case Nil
  then show ?case by simp
next
  case (Cons r opts)
  then show ?case by (cases r) auto
qed

text \<open>
  C1, as the code has it. In play mode every run of \<open>main\<close> that ends returns 0. In check
  mode (some argument is the word \<open>-c\<close>) \<open>main\<close> always ends, and the first result of
  \<open>getopt\<close> that is not \<open>-c\<close> decides: the exit code is 1 when it is one of the options \<open>-a\<close>,
  \<open>-p\<close>, \<open>-t\<close>, \<open>-q\<close>, and 0 when it is \<open>-h\<close> or \<open>'?'\<close>; when there is none, the exit code
  is 1 with more than one bag and 0 with one bag, and with no bag the run stops at the
  missing bag name. So in check mode the exit code is 1 in exactly these two cases. A bag
  that does not open yields 0: in check mode (one bag, no option but \<open>-c\<close>), and in play
  mode, where the run always ends then. Play mode without any bag ends with 0 as well,
  and so does every run with \<open>-a\<close> in effect.
\<close>

theorem main_exit_code:
  "(''-c'' \<notin> set argv \<and> main fuel argv env w = Some (x, w') \<longrightarrow> x = Exit 0)
   \<and> (''-c'' \<in> set argv \<and> getopt_scan ''cahpt:q:'' (tl argv) = (opts, rest) \<longrightarrow>
        (\<exists>v. main fuel argv env w =
           Some (case dropWhile is_dash_c opts of
                   [] \<Rightarrow> if 1 < length rest then Exit 1
                          else if rest = [] then Null_bag_name else Exit 0
                 | Opt c a # rs \<Rightarrow>
                     if c \<in> {CHR ''a'', CHR ''p'', CHR ''t'', CHR ''q''} then Exit 1 else Exit 0
                 | Unknown c # rs \<Rightarrow> Exit 0, v)))
   \<and> (''-c'' \<in> set argv \<and> getopt_scan ''cahpt:q:'' (tl argv) = (opts, [b])
        \<and> (\<forall>r \<in> set opts. \<exists>a. r = Opt CHR ''c'' a) \<and> \<not> open_ok env [b] \<longrightarrow>
        (\<exists>v. main fuel argv env w = Some (Exit 0, v)))
   \<and> (''-c'' \<notin> set argv
        \<and> (\<not> open_ok env (snd (getopt_scan ''ncahpb:r:s:t:q:'' (tl argv)))
            \<or> snd (getopt_scan ''ncahpb:r:s:t:q:'' (tl argv)) = []) \<longrightarrow>
        (\<exists>v. main fuel argv env w = Some (Exit 0, v)))
   \<and> (''-c'' \<notin> set argv
        \<and> at_once (fst (RosPlay_ctor argv env (emit Node_created (w\<lparr>node_ok := True\<rparr>)))) \<longrightarrow>
        (\<exists>v. main fuel argv env w = Some (Exit 0, v)))"
proof (intro conjI impI)
  assume "''-c'' \<notin> set argv \<and> main fuel argv env w = Some (x, w')"
  then show "x = Exit 0"
    by (auto simp: main_def Let_def split: prod.splits option.splits)
next
  assume a: "''-c'' \<in> set argv \<and> getopt_scan ''cahpt:q:'' (tl argv) = (opts, rest)"
  let ?code = "case dropWhile is_dash_c opts of
                   [] \<Rightarrow> if 1 < length rest then Exit 1
                          else if rest = [] then Null_bag_name else Exit 0
                 | Opt c a # rs \<Rightarrow>
                     if c \<in> {CHR ''a'', CHR ''p'', CHR ''t'', CHR ''q''} then Exit 1 else Exit 0
                 | Unknown c # rs \<Rightarrow> Exit 0"
  from a have m: "main fuel argv env w = Some (main_check argv env w)"
    by (simp add: main_def)
  have co: "check_options opts w = check_options (dropWhile is_dash_c opts) w"
    by (rule check_options_dropWhile)
  have "fst (main_check argv env w) = ?code"
  proof (cases "dropWhile is_dash_c opts")
    case Nil
    with co have none: "check_options opts w = (None, w)"
      by simp
    have "?code = (if 1 < length rest then Exit 1
                   else if rest = [] then Null_bag_name else Exit 0)"
      by (simp only: Nil list.case)
    with a none show ?thesis
      by (cases rest) (simp_all add: main_check_def Let_def)
  next
    case (Cons r rs)
    show ?thesis
    proof (cases r)
      case (Unknown c)
      with co Cons a show ?thesis
        by (simp add: main_check_def)
    next
      case (Opt c arg)
      from Cons have "r \<in> set (dropWhile is_dash_c opts)"
        by simp
      then have "r \<in> set opts"
        by (rule set_dropWhileD)
      with Opt a have "opt_lookup ''cahpt:q:'' c \<noteq> None"
        using getopt_scan_in_optstring [of "''cahpt:q:''" "tl argv" opts rest c arg]
        by simp
      then have letters: "c \<in> {CHR ''c'', CHR ''a'', CHR ''h'', CHR ''p'', CHR ''t'', CHR ''q''}"
        by (rule check_optstring_letters)
      from Cons have "\<not> is_dash_c r"
        using hd_dropWhile [of is_dash_c opts] by simp
      with Opt have "c \<noteq> CHR ''c''"
        by simp
      with letters have "c = CHR ''a'' \<or> c = CHR ''h'' \<or> c = CHR ''p'' \<or> c = CHR ''t''
          \<or> c = CHR ''q''"
        by simp
      then show ?thesis
        using co Cons Opt a by (elim disjE) (simp_all add: main_check_def)
    qed
  qed
  with m show "\<exists>v. main fuel argv env w = Some (?code, v)"
    by (cases "main_check argv env w") simp
next
  assume "''-c'' \<in> set argv \<and> getopt_scan ''cahpt:q:'' (tl argv) = (opts, [b])
        \<and> (\<forall>r \<in> set opts. \<exists>a. r = Opt CHR ''c'' a) \<and> \<not> open_ok env [b]"
  then show "\<exists>v. main fuel argv env w = Some (Exit 0, v)"
    by (simp add: main_def main_check_scans)
next
  assume a: "''-c'' \<notin> set argv
        \<and> (\<not> open_ok env (snd (getopt_scan ''ncahpb:r:s:t:q:'' (tl argv)))
            \<or> snd (getopt_scan ''ncahpb:r:s:t:q:'' (tl argv)) = [])"
  let ?w0 = "emit Node_created (w\<lparr>node_ok := True\<rparr>)"
  let ?es = "feed env (snd (getopt_scan ''ncahpb:r:s:t:q:'' (tl argv)))"
  obtain rp w1 where c: "RosPlay_ctor argv env ?w0 = (rp, w1)"
    by (cases "RosPlay_ctor argv env ?w0") auto
  from RosPlay_ctor_frame [OF c] a have "\<not> handler_added rp \<or> \<not> node_ok w1"
    by auto
  then have "spin fuel rp ?es w1 = Some (rp, w1)"
    by (auto simp: spin_def spin_loop_no_handler)
  with a c show "\<exists>v. main fuel argv env w = Some (Exit 0, v)"
    by (simp add: main_def Let_def)
next
  assume a: "''-c'' \<notin> set argv
        \<and> at_once (fst (RosPlay_ctor argv env (emit Node_created (w\<lparr>node_ok := True\<rparr>))))"
  let ?w0 = "emit Node_created (w\<lparr>node_ok := True\<rparr>)"
  let ?es = "feed env (snd (getopt_scan ''ncahpb:r:s:t:q:'' (tl argv)))"
  obtain rp w1 where c: "RosPlay_ctor argv env ?w0 = (rp, w1)"
    by (cases "RosPlay_ctor argv env ?w0") auto
  with a have "at_once rp"
    by simp
  from spin_at_once [OF this, of fuel ?es w1]
  obtain rp' w' where "spin fuel rp ?es w1 = Some (rp', w')"
    by blast
  with a c show "\<exists>v. main fuel argv env w = Some (Exit 0, v)"
    by (simp add: main_def Let_def)
qed

theorem main_exit_code_witness:
  "(\<exists>v. main 0 [''rosplay'', ''missing.bag''] demo_bags idle_world = Some (Exit 0, v))
   \<and> (\<exists>v. main 0 [''rosplay'', ''-a'', ''demo.bag''] demo_bags idle_world = Some (Exit 0, v))
   \<and> (\<exists>v. main 0 [''rosplay''] demo_bags idle_world = Some (Exit 0, v))
   \<and> (\<exists>v. main 0 [''rosplay'', ''-c'', ''missing.bag''] demo_bags idle_world = Some (Exit 0, v))
   \<and> (\<exists>v. main 0 [''rosplay'', ''-c'', ''-q'', ''3'', ''demo.bag''] demo_bags idle_world
            = Some (Exit 1, v))
   \<and> (\<exists>v. main 0 [''rosplay'', ''-c'', ''demo.bag'', ''other.bag''] demo_bags idle_world
            = Some (Exit 1, v))
   \<and> (\<exists>v. main 0 [''rosplay'', ''-c'', ''-h'', ''demo.bag'', ''other.bag''] demo_bags idle_world
            = Some (Exit 0, v))
   \<and> (\<exists>v. main 0 [''rosplay'', ''-c'', ''demo.bag''] demo_bags idle_world = Some (Exit 0, v))"
proof -
  have p: "''-c'' \<notin> set [''rosplay'', ''missing.bag'']
        \<and> (\<not> open_ok demo_bags (snd (getopt_scan ''ncahpb:r:s:t:q:'' (tl [''rosplay'', ''missing.bag''])))
            \<or> snd (getopt_scan ''ncahpb:r:s:t:q:'' (tl [''rosplay'', ''missing.bag''])) = [])"
    by (simp add: demo_bags_def)
  have n: "''-c'' \<notin> set [''rosplay'']
        \<and> (\<not> open_ok demo_bags (snd (getopt_scan ''ncahpb:r:s:t:q:'' (tl [''rosplay''])))
            \<or> snd (getopt_scan ''ncahpb:r:s:t:q:'' (tl [''rosplay''])) = [])"
    by simp
  have c: "''-c'' \<in> set [''rosplay'', ''-c'', ''missing.bag'']
        \<and> getopt_scan ''cahpt:q:'' (tl [''rosplay'', ''-c'', ''missing.bag''])
            = ([Opt CHR ''c'' None], [''missing.bag''])
        \<and> (\<forall>r \<in> set [Opt CHR ''c'' None]. \<exists>a. r = Opt CHR ''c'' a)
        \<and> \<not> open_ok demo_bags [''missing.bag'']"
    by (simp add: demo_bags_def)
  have q: "''-c'' \<in> set [''rosplay'', ''-c'', ''-q'', ''3'', ''demo.bag'']
        \<and> getopt_scan ''cahpt:q:'' (tl [''rosplay'', ''-c'', ''-q'', ''3'', ''demo.bag''])
            = ([Opt CHR ''c'' None, Opt CHR ''q'' (Some ''3'')], [''demo.bag''])"
    by simp
  have two: "''-c'' \<in> set [''rosplay'', ''-c'', ''demo.bag'', ''other.bag'']
        \<and> getopt_scan ''cahpt:q:'' (tl [''rosplay'', ''-c'', ''demo.bag'', ''other.bag''])
            = ([Opt CHR ''c'' None], [''demo.bag'', ''other.bag''])"
    by simp
  have h: "''-c'' \<in> set [''rosplay'', ''-c'', ''-h'', ''demo.bag'', ''other.bag'']
        \<and> getopt_scan ''cahpt:q:'' (tl [''rosplay'', ''-c'', ''-h'', ''demo.bag'', ''other.bag''])
            = ([Opt CHR ''c'' None, Opt CHR ''h'' None], [''demo.bag'', ''other.bag''])"
    by simp
  have one: "''-c'' \<in> set [''rosplay'', ''-c'', ''demo.bag'']
        \<and> getopt_scan ''cahpt:q:'' (tl [''rosplay'', ''-c'', ''demo.bag''])
            = ([Opt CHR ''c'' None], [''demo.bag''])"
    by simp
  from main_exit_code [of "[''rosplay'', ''missing.bag'']" 0 demo_bags idle_world] p
  obtain v where v: "main 0 [''rosplay'', ''missing.bag''] demo_bags idle_world = Some (Exit 0, v)"
    by blast
  from main_exit_code [of "[''rosplay'', ''missing.bag'']" 0 demo_bags idle_world "Exit 0" v] p v
  have "Exit 0 = Exit 0"
    by blast
  have o: "''-c'' \<notin> set [''rosplay'', ''-a'', ''demo.bag'']
        \<and> at_once (fst (RosPlay_ctor [''rosplay'', ''-a'', ''demo.bag''] demo_bags
                         (emit Node_created (idle_world\<lparr>node_ok := True\<rparr>))))"
    by (simp add: RosPlay_ctor_def ctor_case_def ctor_open_def Let_def rosplay0_def)
  from main_exit_code [of "[''rosplay'']" 0 demo_bags idle_world] n
  have "\<exists>v. main 0 [''rosplay''] demo_bags idle_world = Some (Exit 0, v)"
    by blast
  moreover
  from main_exit_code [of "[''rosplay'', ''-a'', ''demo.bag'']" 0 demo_bags idle_world] o
  have "\<exists>v. main 0 [''rosplay'', ''-a'', ''demo.bag''] demo_bags idle_world = Some (Exit 0, v)"
    by blast
  moreover
  from main_exit_code [of "[''rosplay'', ''-c'', ''missing.bag'']" 0 demo_bags idle_world
      _ _ "[Opt CHR ''c'' None]" _ "''missing.bag''"] c
  have "\<exists>v. main 0 [''rosplay'', ''-c'', ''missing.bag''] demo_bags idle_world = Some (Exit 0, v)"
    by blast
  moreover
  from main_exit_code [of "[''rosplay'', ''-c'', ''-q'', ''3'', ''demo.bag'']" 0 demo_bags
      idle_world _ _ "[Opt CHR ''c'' None, Opt CHR ''q'' (Some ''3'')]" "[''demo.bag'']"] q
  have "\<exists>v. main 0 [''rosplay'', ''-c'', ''-q'', ''3'', ''demo.bag''] demo_bags idle_world
            = Some (Exit 1, v)"
    by simp
  moreover
  from main_exit_code [of "[''rosplay'', ''-c'', ''demo.bag'', ''other.bag'']" 0 demo_bags
      idle_world _ _ "[Opt CHR ''c'' None]" "[''demo.bag'', ''other.bag'']"] two
  have "\<exists>v. main 0 [''rosplay'', ''-c'', ''demo.bag'', ''other.bag''] demo_bags idle_world
            = Some (Exit 1, v)"
    by simp
  moreover
  from main_exit_code [of "[''rosplay'', ''-c'', ''-h'', ''demo.bag'', ''other.bag'']" 0 demo_bags
      idle_world _ _ "[Opt CHR ''c'' None, Opt CHR ''h'' None]" "[''demo.bag'', ''other.bag'']"] h
  have "\<exists>v. main 0 [''rosplay'', ''-c'', ''-h'', ''demo.bag'', ''other.bag''] demo_bags idle_world
            = Some (Exit 0, v)"
    by simp
  moreover
  from main_exit_code [of "[''rosplay'', ''-c'', ''demo.bag'']" 0 demo_bags
      idle_world _ _ "[Opt CHR ''c'' None]" "[''demo.bag'']"] one
  have "\<exists>v. main 0 [''rosplay'', ''-c'', ''demo.bag''] demo_bags idle_world = Some (Exit 0, v)"
    by simp
  ultimately show ?thesis
    using v by blast
qed

theorem check_mode_unopened_bag_counterexample:
  "\<not> open_ok demo_bags [''missing.bag'']
   \<and> map_option fst (main 0 [''rosplay'', ''-c'', ''missing.bag''] demo_bags idle_world)
       = Some (Exit 0)"
  by (simp add: main_def main_check_def demo_bags_def)

subsection \<open>What doPublish advertises and publishes\<close>

lemma published_append [simp]: "published (xs @ ys) = published xs @ published ys"
  by (induction xs rule: published.induct) simp_all

lemma advertises_append [simp]: "advertises (xs @ ys) = advertises xs @ advertises ys"
  by (induction xs rule: advertises.induct) simp_all

lemma bag_time_call_quiet [simp]:
  "published (log (bag_time_call rp Freeze_time w)) = published (log w)"
  "published (log (bag_time_call rp (Start_time t) w)) = published (log w)"
  "published (log (bag_time_call rp (Step_time t) w)) = published (log w)"
  "advertises (log (bag_time_call rp Freeze_time w)) = advertises (log w)"
  "advertises (log (bag_time_call rp (Start_time t) w)) = advertises (log w)"
  "advertises (log (bag_time_call rp (Step_time t) w)) = advertises (log w)"
  by (simp_all add: bag_time_call_def)

lemma toggle_pause_quiet:
  "toggle_pause rp e pt w = (rp1, pt1, w1) \<Longrightarrow>
     published (log w1) = published (log w) \<and> advertises (log w1) = advertises (log w)"
  by (auto simp: toggle_pause_def Let_def split: if_splits)

lemma announce_log:
  "announce rp e w = (rp1, w1) \<Longrightarrow>
     published (log w1) = published (log w) \<and> advertises (log w1) = advertises (log w) @ [topic e]"
  by (auto simp: announce_def Let_def split: if_splits prod.splits bool.splits
        dest!: advertise_frame)

lemma key_loop_log:
  "key_loop n rp e pt w = x \<Longrightarrow>
     (case x of
        Stepped rp' w' \<Rightarrow> published (log w') = published (log w) @ [(topic e, message e)]
                          \<and> advertises (log w') = advertises (log w)
      | Left rp' pt' w' \<Rightarrow> published (log w') = published (log w)
                          \<and> advertises (log w') = advertises (log w)
      | Key_cut rp' pt' w' \<Rightarrow> published (log w') = published (log w)
                          \<and> advertises (log w') = advertises (log w))"
proof (induction n arbitrary: rp pt w)
  case 0
  then show ?case by auto
next
  case (Suc n)
  show ?case
  proof (cases "node_ok w")
    case False
    with Suc.prems show ?thesis by auto
  next
    case ok: True
    obtain c w1 where g: "getchar w = (c, w1)" by (cases "getchar w") auto
    from getchar_frame [OF g] have l: "log w1 = log w"
      by simp
    consider (space) "c = Some CHR '' ''" | (step) "c = Some CHR ''s''"
      | (eof) "c \<noteq> Some CHR '' ''" "c \<noteq> Some CHR ''s''" "is_EOF c"
      | (other) "c \<noteq> Some CHR '' ''" "c \<noteq> Some CHR ''s''" "\<not> is_EOF c"
      by blast
    then show ?thesis
    proof cases
      case space
      obtain rp1 pt1 w2 where t: "toggle_pause rp e pt w1 = (rp1, pt1, w2)"
        by (cases "toggle_pause rp e pt w1") auto
      with Suc.prems ok g space have "key_loop n rp1 e pt1 w2 = x"
        by simp
      from Suc.IH [OF this] toggle_pause_quiet [OF t] l show ?thesis
        by (cases x) auto
    next
      case step
      show ?thesis
      proof (cases "paused rp")
        case True
        with Suc.prems ok g step l show ?thesis
          by auto
      next
        case False
        with Suc.prems ok g step have "key_loop n rp e pt w1 = x"
          by simp
        from Suc.IH [OF this] l show ?thesis
          by (cases x) auto
      qed
    next
      case eof
      show ?thesis
      proof (cases "paused rp")
        case True
        with Suc.prems ok g eof have "key_loop n rp e pt (usleep 10000 w1) = x"
          by simp
        from Suc.IH [OF this] l show ?thesis
          by (cases x) auto
      next
        case False
        with Suc.prems ok g eof l show ?thesis
          by auto
      qed
    next
      case other
      with Suc.prems ok g have "key_loop n rp e pt w1 = x"
        by simp
      from Suc.IH [OF this] l show ?thesis
        by (cases x) auto
    qed
  qed
qed

lemma wait_loop_log:
  "wait_loop n rp e pt delta w = x \<Longrightarrow>
     (case x of
        Returned rp' w' \<Rightarrow> published (log w') = published (log w) @ [(topic e, message e)]
                           \<and> advertises (log w') = advertises (log w)
      | Waited rp' delta' w' \<Rightarrow> published (log w') = published (log w)
                           \<and> advertises (log w') = advertises (log w)
      | Wait_cut rp' w' \<Rightarrow> published (log w') = published (log w)
                           \<and> advertises (log w') = advertises (log w))"
proof (induction n arbitrary: rp pt delta w)
  case 0
  then show ?case by auto
next
  case (Suc n)
  show ?case
  proof (cases "(paused rp \<or> 100000 < delta) \<and> node_ok w")
    case False
    with Suc.prems show ?thesis by auto
  next
    case True
    note k = key_loop_log [of n rp e pt w "key_loop n rp e pt w"]
    show ?thesis
    proof (cases "key_loop n rp e pt w")
      case (Stepped rp1 w1)
      with Suc.prems True k show ?thesis
        by auto
    next
      case (Key_cut rp1 pt1 w1)
      with Suc.prems True k show ?thesis
        by auto
    next
      case (Left rp1 pt1 w1)
      with Suc.prems True
      have "wait_loop n rp1 e pt1 (pt1 - getSysTime (usleep 100000 w1)) (usleep 100000 w1) = x"
        by (simp add: Let_def)
      from Suc.IH [OF this] k Left show ?thesis
        by (cases x) auto
    qed
  qed
qed

lemma doPublish_log:
  assumes "\<not> play_time e < requested_start_time rp"
  shows "case doPublish fuel rp e w of
           Ended rp' w' \<Rightarrow> advertises (log w') = advertises (log w) @ [topic e]
                          \<and> published (log w') = published (log w) @ [(topic e, message e)]
         | Cut rp' w' \<Rightarrow> advertises (log w') = advertises (log w) @ [topic e]
                          \<and> published (log w') = published (log w)"
proof -
  obtain rp1 w1 where a: "announce rp e w = (rp1, w1)"
    by (cases "announce rp e w") auto
  note al = announce_log [OF a]
  show ?thesis
  proof (cases "at_once rp1")
    case True
    with assms a al show ?thesis
      by (simp add: doPublish_def)
  next
    case no: False
    let ?y = "wait_loop fuel rp1 e (play_time e) (play_time e - getSysTime w1) w1"
    note wl = wait_loop_log [of fuel rp1 e "play_time e" "play_time e - getSysTime w1" w1 ?y]
    show ?thesis
    proof (cases ?y)
      case (Returned rp2 w2)
      with assms a no wl al show ?thesis
        by (simp add: doPublish_def)
    next
      case (Wait_cut rp2 w2)
      with assms a no wl al show ?thesis
        by (simp add: doPublish_def)
    next
      case (Waited rp2 delta w2)
      with assms a no wl al show ?thesis
        by (simp add: doPublish_def Let_def)
    qed
  qed
qed

subsection \<open>When doPublish returns without a key\<close>

lemma getchar_no_keys:
  "keys w = [] \<Longrightarrow> \<exists>w1. getchar w = (None, w1) \<and> keys w1 = [] \<and> clock w1 = clock w
     \<and> node_ok w1 = node_ok w"
  by (simp add: getchar_def)

lemma wait_loop_idle:
  "\<not> paused rp \<Longrightarrow> keys w = [] \<Longrightarrow> delta = pt - clock w \<Longrightarrow>
   delta \<le> 100000 + 100000000 * int k \<Longrightarrow> k < n \<Longrightarrow>
     \<exists>d' w'. wait_loop n rp e pt delta w = Waited rp d' w'"
proof (induction k arbitrary: n delta w)
  case 0
  then obtain m where n: "n = Suc m"
    by (cases n) auto
  with 0 show ?case
    by simp
next
  case (Suc k)
  then obtain m where n: "n = Suc m"
    by (cases n) auto
  show ?case
  proof (cases "100000 < delta \<and> node_ok w")
    case False
    with Suc.prems n show ?thesis
      by auto
  next
    case True
    from Suc.prems n obtain m' where m: "m = Suc m'"
      by (cases m) auto
    from getchar_no_keys [OF Suc.prems(2)] obtain w1 where
      g: "getchar w = (None, w1)" and w1: "keys w1 = []" "clock w1 = clock w"
      by blast
    from True g Suc.prems(1) have kl: "key_loop m rp e pt w = Left rp pt w1"
      by (simp add: m is_EOF_def)
    let ?w2 = "usleep 100000 w1"
    have k2: "keys ?w2 = []"
      using w1 by simp
    have c2: "clock ?w2 = clock w + 100000000"
      using w1 by (simp add: usleep_def emit_def)
    have d2: "pt - getSysTime ?w2 = pt - clock ?w2"
      by (simp add: getSysTime_def)
    from Suc.prems c2 have b2: "pt - clock ?w2 \<le> 100000 + 100000000 * int k"
      by simp
    from Suc.prems n have "k < m"
      by simp
    from Suc.IH [OF Suc.prems(1) k2 refl b2 this]
    have r: "\<exists>d' w'. wait_loop m rp e pt (pt - clock ?w2) ?w2 = Waited rp d' w'" .
    from True kl Suc.prems(1) n
    have step: "wait_loop n rp e pt delta w = wait_loop m rp e pt (pt - getSysTime ?w2) ?w2"
      by (simp add: Let_def)
    show ?thesis
      unfolding step d2 by (rule r)
  qed
qed

lemma doPublish_idle:
  assumes "\<not> play_time e < requested_start_time rp"
    and "\<not> paused rp" and "keys w = []"
    and "play_time e - clock w \<le> 100000 + 100000000 * int k" and "k < fuel"
  shows "\<exists>rp' w'. doPublish fuel rp e w = Ended rp' w'"
proof -
  obtain rp1 w1 where a: "announce rp e w = (rp1, w1)"
    by (cases "announce rp e w") auto
  from announce_frame [OF a] assms have
    f: "\<not> paused rp1" "keys w1 = []" "play_time e - clock w1 \<le> 100000 + 100000000 * int k"
    by simp_all
  show ?thesis
  proof (cases "at_once rp1")
    case True
    with assms a show ?thesis
      by (simp add: doPublish_def)
  next
    case False
    from wait_loop_idle [OF f(1) f(2) refl f(3) assms(5), of e]
    obtain d' w' where
      "wait_loop fuel rp1 e (play_time e) (play_time e - clock w1) w1 = Waited rp1 d' w'"
      by blast
    with assms a False show ?thesis
      by (simp add: doPublish_def Let_def getSysTime_def)
  qed
qed

lemma doPublish_not_ok:
  assumes "\<not> play_time e < requested_start_time rp" and "\<not> node_ok w" and "0 < fuel"
  shows "\<exists>rp' w'. doPublish fuel rp e w = Ended rp' w'"
proof -
  obtain rp1 w1 where a: "announce rp e w = (rp1, w1)"
    by (cases "announce rp e w") auto
  from announce_frame [OF a] assms have f: "\<not> node_ok w1"
    by (simp add: unchanged_def)
  from assms obtain m where m: "fuel = Suc m"
    by (cases fuel) auto
  from f have "wait_loop fuel rp1 e (play_time e) (play_time e - getSysTime w1) w1
                 = Waited rp1 (play_time e - getSysTime w1) w1"
    by (simp add: m)
  with assms a show ?thesis
    by (simp add: doPublish_def Let_def)
qed

subsection \<open>The start offset\<close>

text \<open>
  C4, as the code has it. \<open>doPublish\<close> drops an envelope exactly when its play time is
  before \<open>requested_start_time_\<close>, the wall-clock time taken in the constructor; the record
  time has no part in the test. A dropped envelope changes nothing: the call returns at
  once, nothing is advertised, nothing is published. Any other envelope is not dropped:
  its topic is advertised, whether the call has returned or is still in its loops, and
  the message is published exactly once by the time the call returns, and not before.
  The call does return: with \<open>-a\<close>; when the node is not ok; and, for a player that is
  not paused and with no key pressed, once the rounds of a tenth of a second have reached
  the play time.
\<close>

theorem doPublish_drops_early_play_time:
  "(play_time e < requested_start_time rp \<longrightarrow> doPublish fuel rp e w = Ended rp w)
   \<and> (\<not> play_time e < requested_start_time rp \<longrightarrow>
        (case doPublish fuel rp e w of
           Ended rp' w' \<Rightarrow> advertises (log w') = advertises (log w) @ [topic e]
                          \<and> published (log w') = published (log w) @ [(topic e, message e)]
         | Cut rp' w' \<Rightarrow> advertises (log w') = advertises (log w) @ [topic e]
                          \<and> published (log w') = published (log w))
        \<and> (at_once rp
            \<or> \<not> node_ok w \<and> 0 < fuel
            \<or> \<not> paused rp \<and> keys w = [] \<and> 0 < fuel
               \<and> play_time e - clock w \<le> 100000 + 100000000 * (int fuel - 1) \<longrightarrow>
            (\<exists>rp' w'. doPublish fuel rp e w = Ended rp' w')))"
proof (intro conjI impI)
  assume "play_time e < requested_start_time rp"
  then show "doPublish fuel rp e w = Ended rp w"
    by (simp add: doPublish_def)
next
  assume "\<not> play_time e < requested_start_time rp"
  then show "case doPublish fuel rp e w of
           Ended rp' w' \<Rightarrow> advertises (log w') = advertises (log w) @ [topic e]
                          \<and> published (log w') = published (log w) @ [(topic e, message e)]
         | Cut rp' w' \<Rightarrow> advertises (log w') = advertises (log w) @ [topic e]
                          \<and> published (log w') = published (log w)"
    by (rule doPublish_log)
next
  assume n: "\<not> play_time e < requested_start_time rp"
  assume "at_once rp
            \<or> \<not> node_ok w \<and> 0 < fuel
            \<or> \<not> paused rp \<and> keys w = [] \<and> 0 < fuel
               \<and> play_time e - clock w \<le> 100000 + 100000000 * (int fuel - 1)"
  then consider (once) "at_once rp" | (down) "\<not> node_ok w" "0 < fuel"
    | (idle) "\<not> paused rp" "keys w = []" "0 < fuel"
        "play_time e - clock w \<le> 100000 + 100000000 * (int fuel - 1)"
    by blast
  then show "\<exists>rp' w'. doPublish fuel rp e w = Ended rp' w'"
  proof cases
    case once
    then show ?thesis
      by (rule doPublish_at_once)
  next
    case down
    with n show ?thesis
      by (rule doPublish_not_ok)
  next
    case idle
    then obtain k where k: "fuel = Suc k"
      by (cases fuel) auto
    with idle have b: "play_time e - clock w \<le> 100000 + 100000000 * int k" "k < fuel"
      by simp_all
    from n idle(1) idle(2) b show ?thesis
      by (rule doPublish_idle)
  qed
qed

theorem doPublish_drops_early_play_time_witness:
  "doPublish 0 demo_player
     \<lparr>topic = ''/scan'', message = scan_msg, play_time = 999000000000, record_time = 0\<rparr>
     playing_world = Ended demo_player playing_world
   \<and> (\<exists>rp' w'. doPublish 11 demo_player
          \<lparr>topic = ''/odom'', message = odom_msg, play_time = 1001000000000,
            record_time = 1000000000\<rparr> playing_world = Ended rp' w'
        \<and> advertises (log w') = [''/odom''] \<and> published (log w') = [(''/odom'', odom_msg)])
   \<and> (\<exists>rp' w'. doPublish 11 (demo_player\<lparr>paused := True\<rparr>)
          \<lparr>topic = ''/odom'', message = odom_msg, play_time = 1001000000000,
            record_time = 1000000000\<rparr> playing_world = Cut rp' w'
        \<and> advertises (log w') = [''/odom''] \<and> published (log w') = [])"
proof -
  let ?early = "\<lparr>topic = ''/scan'', message = scan_msg, play_time = 999000000000,
                 record_time = 0\<rparr>"
  let ?late = "\<lparr>topic = ''/odom'', message = odom_msg, play_time = 1001000000000,
                record_time = 1000000000\<rparr>"
  have e: "play_time ?early < requested_start_time demo_player"
    by (simp add: demo_player_def)
  have l: "\<not> play_time ?late < requested_start_time demo_player"
    by (simp add: demo_player_def)
  have lp: "\<not> play_time ?late < requested_start_time (demo_player\<lparr>paused := True\<rparr>)"
    by (simp add: demo_player_def)
  have n: "advertises (log playing_world) = []" "published (log playing_world) = []"
    by (simp_all add: playing_world_def idle_world_def)
  have i: "\<not> paused demo_player \<and> keys playing_world = [] \<and> 0 < (11::nat)
      \<and> play_time ?late - clock playing_world \<le> 100000 + 100000000 * (int 11 - 1)"
    by (simp add: demo_player_def rosplay0_def playing_world_def idle_world_def)
  have "case doPublish 11 (demo_player\<lparr>paused := True\<rparr>) ?late playing_world of
          Cut rp' w' \<Rightarrow> True | Ended rp' w' \<Rightarrow> False"
    by code_simp
  then have c: "\<exists>rp' w'. doPublish 11 (demo_player\<lparr>paused := True\<rparr>) ?late playing_world
                  = Cut rp' w'"
    by (cases "doPublish 11 (demo_player\<lparr>paused := True\<rparr>) ?late playing_world") simp_all
  from doPublish_drops_early_play_time [of ?early demo_player 0 playing_world] e
  have "doPublish 0 demo_player ?early playing_world = Ended demo_player playing_world"
    by blast
  moreover
  from doPublish_drops_early_play_time [of ?late demo_player 11 playing_world] l i
  obtain rp' w' where r: "doPublish 11 demo_player ?late playing_world = Ended rp' w'"
    by blast
  from doPublish_drops_early_play_time [of ?late demo_player 11 playing_world] l n r
  have "advertises (log w') = [''/odom''] \<and> published (log w') = [(''/odom'', odom_msg)]"
    by simp
  moreover
  from c obtain rp2 w2 where
    r2: "doPublish 11 (demo_player\<lparr>paused := True\<rparr>) ?late playing_world = Cut rp2 w2"
    by blast
  from doPublish_drops_early_play_time [of ?late "demo_player\<lparr>paused := True\<rparr>" 11 playing_world]
    lp n r2
  have "advertises (log w2) = [''/odom''] \<and> published (log w2) = []"
    by simp
  ultimately show ?thesis
    using r r2 by blast
qed

text \<open>
  The run \<open>rosplay -r 2 -t 10 demo.bag\<close> at second 1000 opens the player at second 990 and
  constructs \<open>demo_player\<close>. An envelope recorded 15 seconds after the first has, by the
  formula of the spec and at time scale 2, the play time 997.5 seconds. Its record time is
  not before the offset of 10 seconds, and \<open>doPublish\<close> drops it.
\<close>

theorem record_time_not_before_offset_dropped_counterexample:
  "fst (RosPlay_ctor [''rosplay'', ''-r'', ''2'', ''-t'', ''10'', ''demo.bag''] demo_bags
          playing_world) = demo_player
   \<and> log (snd (RosPlay_ctor [''rosplay'', ''-r'', ''2'', ''-t'', ''10'', ''demo.bag''] demo_bags
          playing_world)) = [Player_open [''demo.bag''] 990000000000 (Some ''2''), Add_handler]
   \<and> spec_play_time 990000000000 0 2 0 15000000000 = 997500000000
   \<and> \<not> spec_before_start_offset 0 10000000000
         \<lparr>topic = ''/scan'', message = scan_msg, play_time = 997500000000,
           record_time = 15000000000\<rparr>
   \<and> doPublish 0 demo_player
        \<lparr>topic = ''/scan'', message = scan_msg, play_time = 997500000000,
          record_time = 15000000000\<rparr> playing_world = Ended demo_player playing_world"
  by (simp add: RosPlay_ctor_def ctor_case_def ctor_open_def Let_def rosplay0_def optarg_def
        demo_bags_def playing_world_def idle_world_def getSysTime_def demo_player_def
        spec_play_time_def spec_before_start_offset_def doPublish_def emit_def)

subsection \<open>Pause and step\<close>












end
